theory Spec2Isabelle
  imports Main "HOL-Library.AList"
begin

unbundle bit_operations_syntax

section \<open>JavaScript numbers and strings, as far as the codec uses them\<close>

text \<open>
  The codec of the Reolink plugin, \<^verbatim>\<open>decodeHexToFlags\<close> and \<^verbatim>\<open>parseFileName\<close> with the tables
  of \<^verbatim>\<open>types.ts\<close>, is JavaScript. The embedding keeps what JavaScript does to the values:
  \<^item> A number is an IEEE double. Every number that occurs in the codec is \<^verbatim>\<open>NaN\<close>, an infinity
    or an integer, so a number is modelled by the integer it holds (\<open>Fin\<close>); an integer that
    \<^verbatim>\<open>parseInt\<close> reads is rounded to the nearest double. Negative zero is identified with zero:
    it prints as \<^verbatim>\<open>"0"\<close>, converts to the 32-bit integer 0 and is falsy, exactly as zero.
  \<^item> The operators \<^verbatim>\<open><<\<close>, \<^verbatim>\<open>>>\<close> and \<^verbatim>\<open>&\<close> work on signed 32-bit integers.
  \<^item> A string is the list of its code units; the model covers the strings whose code units
    are below 256.
  \<^item> A read of a missing property or index gives \<^verbatim>\<open>undefined\<close> (\<open>None\<close>), and reading a property
    of \<^verbatim>\<open>undefined\<close> throws a \<^verbatim>\<open>TypeError\<close>, which the functions return as a value.
  Line numbers in the comments are those of the source file of the two functions.
\<close>

datatype jsnum = NaN | Fin int | PosInf | NegInf

datatype error = TypeError

text \<open>Number of binary digits of a non-negative integer (0 for 0).\<close>

function bitLength :: "int \<Rightarrow> nat" where
  "bitLength n = (if n \<le> 0 then 0 else Suc (bitLength (n div 2)))"
  by pat_completeness auto
termination
  by (relation "measure nat") auto

declare bitLength.simps [simp del]

text \<open>
  The Number value of a mathematical integer: integers of at most 53 binary digits are exact;
  a longer one is rounded to 53 significant digits, ties to even, and becomes an infinity from
  \<open>2 ^ 1024\<close> on.
\<close>

definition toDouble :: "int \<Rightarrow> jsnum" where
  "toDouble i =
     (let m = \<bar>i\<bar>; k = bitLength m in
      if k \<le> 53 then Fin i
      else
        let e = k - 53; q = m div 2 ^ e; r = m mod 2 ^ e; h = 2 ^ (e - 1);
            q' = (if h < r \<or> (r = h \<and> odd q) then q + 1 else q);
            v = q' * 2 ^ e
        in if 2 ^ 1024 \<le> v then (if i < 0 then NegInf else PosInf)
           else Fin (if i < 0 then - v else v))"

text \<open>\<^verbatim>\<open>ToInt32\<close>: what the bitwise operators make of their operands.\<close>

definition wrap32 :: "int \<Rightarrow> int" where
  "wrap32 i = (i + 2 ^ 31) mod 2 ^ 32 - 2 ^ 31"

definition toInt32 :: "jsnum \<Rightarrow> int" where
  "toInt32 x = (case x of Fin i \<Rightarrow> wrap32 i | _ \<Rightarrow> 0)"

text \<open>
  \<^verbatim>\<open>a << n\<close>, \<^verbatim>\<open>a >> n\<close> and \<^verbatim>\<open>a & b\<close> on integral numbers: the operands are taken modulo
  \<open>2 ^ 32\<close> as signed 32-bit integers, and only the low five bits of a shift count are used.
\<close>

definition shl :: "int \<Rightarrow> nat \<Rightarrow> int" where
  "shl a n = wrap32 (wrap32 a * 2 ^ (n mod 32))"

definition sar :: "int \<Rightarrow> nat \<Rightarrow> int" where
  "sar a n = wrap32 a div 2 ^ (n mod 32)"

definition band :: "int \<Rightarrow> int \<Rightarrow> int" where
  "band a b = wrap32 a AND wrap32 b"

text \<open>
  \<^verbatim>\<open>n.toString(2)\<close>: first the digits of a non-negative integer. The digits of an integral
  double are exact, also beyond \<open>2 ^ 53\<close>.
\<close>

function binDigits :: "int \<Rightarrow> string" where
  "binDigits n =
     (if n < 2 then [if n \<le> 0 then CHR ''0'' else CHR ''1'']
      else binDigits (n div 2) @ [if n mod 2 = 0 then CHR ''0'' else CHR ''1''])"
  by pat_completeness auto
termination
  by (relation "measure nat") auto

declare binDigits.simps [simp del]

definition toString2 :: "jsnum \<Rightarrow> string" where
  "toString2 x =
     (case x of
        NaN \<Rightarrow> ''NaN''
      | PosInf \<Rightarrow> ''Infinity''
      | NegInf \<Rightarrow> ''-Infinity''
      | Fin i \<Rightarrow> (if i < 0 then CHR ''-'' # binDigits (- i) else binDigits i))"

text \<open>\<^verbatim>\<open>s.padStart(n, c)\<close> for a one-character filler.\<close>

definition padStart :: "string \<Rightarrow> nat \<Rightarrow> char \<Rightarrow> string" where
  "padStart s n c = replicate (n - length s) c @ s"

text \<open>
  \<^verbatim>\<open>parseInt(string, radix)\<close>. Leading white space is dropped, then a sign, then (for radix 16
  or no radix) a \<^verbatim>\<open>0x\<close> prefix; the longest run of digits of the radix is the number, and an
  empty run gives \<^verbatim>\<open>NaN\<close>. The radix is absent, 2 or 16 at the three call sites.
\<close>

definition isWhiteSpace :: "char \<Rightarrow> bool" where
  "isWhiteSpace c = (of_char c \<in> {9, 10, 11, 12, 13, 32, 160 :: int})"

definition digitValue :: "char \<Rightarrow> int option" where
  "digitValue c =
     (let n = of_char c :: int in
      if 48 \<le> n \<and> n \<le> 57 then Some (n - 48)
      else if 97 \<le> n \<and> n \<le> 122 then Some (n - 87)
      else if 65 \<le> n \<and> n \<le> 90 then Some (n - 55)
      else None)"

definition isRadixDigit :: "int \<Rightarrow> char \<Rightarrow> bool" where
  "isRadixDigit R c = (case digitValue c of None \<Rightarrow> False | Some d \<Rightarrow> d < R)"

definition digitsValue :: "int \<Rightarrow> string \<Rightarrow> int" where
  "digitsValue R Z = foldl (\<lambda>acc c. acc * R + the (digitValue c)) 0 Z"

definition parseInt :: "string \<Rightarrow> int option \<Rightarrow> jsnum" where
  "parseInt inputString radix =
     (let S = dropWhile isWhiteSpace inputString;
          sign = (if S \<noteq> [] \<and> hd S = CHR ''-'' then - 1 else 1 :: int);
          S1 = (if S \<noteq> [] \<and> (hd S = CHR ''+'' \<or> hd S = CHR ''-'') then tl S else S);
          stripPrefix = (case radix of None \<Rightarrow> True | Some r \<Rightarrow> r = 16);
          hasPrefix = (stripPrefix \<and> (take 2 S1 = ''0x'' \<or> take 2 S1 = ''0X''));
          R = (case radix of None \<Rightarrow> (if hasPrefix then 16 else 10) | Some r \<Rightarrow> r);
          S2 = (if hasPrefix then drop 2 S1 else S1);
          Z = takeWhile (isRadixDigit R) S2
      in if Z = [] then NaN else toDouble (sign * digitsValue R Z))"

text \<open>Truthiness of a property read: \<^verbatim>\<open>undefined\<close>, \<^verbatim>\<open>NaN\<close> and 0 are falsy.\<close>

definition truthy :: "jsnum option \<Rightarrow> bool" where
  "truthy v = (case v of None \<Rightarrow> False | Some NaN \<Rightarrow> False | Some (Fin i) \<Rightarrow> i \<noteq> 0 | Some _ \<Rightarrow> True)"

text \<open>\<^verbatim>\<open>xs[i]\<close>: \<^verbatim>\<open>undefined\<close> out of range.\<close>

definition jsIndex :: "'a list \<Rightarrow> nat \<Rightarrow> 'a option" where
  "jsIndex xs i = (if i < length xs then Some (xs ! i) else None)"

text \<open>
  \<^verbatim>\<open>s.split(c)\<close> for a one-character separator, and \<^verbatim>\<open>xs.join(c)\<close>. A split is never empty,
  so the second branch of the \<open>case\<close> is never taken.
\<close>

primrec splitOn :: "char \<Rightarrow> string \<Rightarrow> string list" where
  "splitOn c [] = [[]]"
| "splitOn c (x # xs) =
     (if x = c then [] # splitOn c xs
      else (case splitOn c xs of t # ts \<Rightarrow> (x # t) # ts | [] \<Rightarrow> [[x]]))"

fun joinWith :: "char \<Rightarrow> string list \<Rightarrow> string" where
  "joinWith c [] = []"
| "joinWith c [x] = x"
| "joinWith c (x # y # ys) = x @ c # joinWith c (y # ys)"

definition startsWith :: "string \<Rightarrow> string \<Rightarrow> bool" where
  "startsWith s p = (take (length p) s = p)"

text \<open>\<^verbatim>\<open>Math.max(...xs)\<close>: minus infinity for no argument.\<close>

definition mathMax :: "int list \<Rightarrow> jsnum" where
  "mathMax xs = (case xs of [] \<Rightarrow> NegInf | x # ys \<Rightarrow> Fin (fold max ys x))"

section \<open>The schema tables (types.ts)\<close>

text \<open>
  A \<^verbatim>\<open>Flags\<close> object maps a flag name to \<^verbatim>\<open>[bitPosition, bitSize]\<close>; \<^verbatim>\<open>Object.entries\<close>
  lists it in insertion order, so it is an association list.
\<close>

type_synonym Flags = "(string \<times> nat \<times> nat) list"

definition FLAGS_CAM_V2 :: Flags where
  "FLAGS_CAM_V2 =
     [(''resolution_index'', 0, 7),
      (''tv_system'', 7, 1),
      (''framerate'', 8, 7),
      (''audio_index'', 15, 2),
      (''ai_pd'', 17, 1),
      (''ai_fd'', 18, 1),
      (''ai_vd'', 19, 1),
      (''ai_ad'', 20, 1),
      (''encoder_type_index'', 21, 2),
      (''is_schedule_record'', 23, 1),
      (''is_motion_record'', 24, 1),
      (''is_rf_record'', 25, 1),
      (''is_doorbell_record'', 26, 1),
      (''ai_other'', 27, 1)]"

definition FLAGS_HUB_V0 :: Flags where
  "FLAGS_HUB_V0 =
     [(''resolution_index'', 0, 7),
      (''tv_system'', 7, 1),
      (''framerate'', 8, 7),
      (''audio_index'', 15, 2),
      (''ai_pd'', 17, 1),
      (''ai_fd'', 18, 1),
      (''ai_vd'', 19, 1),
      (''ai_ad'', 20, 1),
      (''encoder_type_index'', 21, 2),
      (''is_schedule_record'', 23, 1),
      (''is_motion_record'', 24, 1),
      (''is_rf_record'', 25, 1),
      (''is_doorbell_record'', 26, 1),
      (''is_ai_other_record'', 27, 1),
      (''picture_layout_index'', 28, 7),
      (''package_delivered'', 35, 1),
      (''package_takenaway'', 36, 1)]"

definition FLAGS_HUB_V1 :: Flags where
  "FLAGS_HUB_V1 = AList.update ''package_event'' (37, 1) FLAGS_HUB_V0"

definition FLAGS_HUB_V2 :: Flags where
  \<comment> \<open>the object literal under \<^verbatim>\<open>hub: { 2: ... }\<close>\<close>
  "FLAGS_HUB_V2 =
     [(''resolution_index'', 0, 7),
      (''tv_system'', 7, 1),
      (''framerate'', 8, 7),
      (''audio_index'', 15, 2),
      (''ai_pd'', 17, 1),
      (''ai_fd'', 18, 1),
      (''ai_vd'', 19, 1),
      (''ai_ad'', 20, 1),
      (''ai_other'', 21, 2),
      (''encoder_type_index'', 23, 1),
      (''is_schedule_record'', 24, 1),
      (''is_motion_record'', 25, 1),
      (''is_rf_record'', 26, 1),
      (''is_doorbell_record'', 27, 1),
      (''picture_layout_index'', 28, 7),
      (''package_delivered'', 35, 1),
      (''package_takenaway'', 36, 1),
      (''package_event'', 37, 1),
      (''upload_flag'', 38, 1)]"

definition FLAGS_LENGTH :: "(string \<times> (int \<times> nat) list) list" where
  "FLAGS_LENGTH =
     [(''cam'', [(2, 7), (3, 7), (4, 9), (9, 14)]),
      (''hub'', [(2, 10)])]"

definition FLAGS_MAPPING :: "(string \<times> (int \<times> Flags) list) list" where
  "FLAGS_MAPPING =
     [(''cam'', [(2, FLAGS_CAM_V2), (3, FLAGS_CAM_V2), (4, FLAGS_CAM_V2), (9, FLAGS_CAM_V2)]),
      (''hub'', [(0, FLAGS_HUB_V0), (1, FLAGS_HUB_V1), (2, FLAGS_HUB_V2)])]"

text \<open>
  \<^verbatim>\<open>table[devType][version]\<close>: the property key of a number is its decimal string, so only a
  finite number can name one of the integer keys of the tables.
\<close>

definition lookup2 :: "(string \<times> (int \<times> 'a) list) list \<Rightarrow> string \<Rightarrow> jsnum \<Rightarrow> 'a option" where
  "lookup2 table devType version =
     (case map_of table devType of
        None \<Rightarrow> None
      | Some byVersion \<Rightarrow> (case version of Fin i \<Rightarrow> map_of byVersion i | _ \<Rightarrow> None))"

section \<open>decodeHexToFlags\<close>

text \<open>The body of the loop over the flags: the mask, the segment and its reversal.\<close>

definition flagValue :: "jsnum \<Rightarrow> nat \<Rightarrow> nat \<Rightarrow> jsnum" where
  "flagValue hexIntRev bitPosition bitSize =
     (let mask = shl (shl 1 bitSize - 1) bitPosition;
          flagValRev = sar (band (toInt32 hexIntRev) mask) bitPosition
      in parseInt (rev (padStart (toString2 (Fin flagValRev)) bitSize CHR ''0'')) (Some 2))"

definition reverseHex :: "string \<Rightarrow> jsnum" where
  \<comment> \<open>\<^verbatim>\<open>hexIntRev\<close>\<close>
  "reverseHex hexValue =
     (let hexInt = parseInt hexValue (Some 16)
      in parseInt (rev (padStart (toString2 hexInt) (length hexValue * 4) CHR ''0'')) (Some 2))"

text \<open>
  \<^verbatim>\<open>Object.entries\<close> of a missing table entry throws a \<^verbatim>\<open>TypeError\<close>; the result object
  \<^verbatim>\<open>flagValues\<close> is an association list in assignment order.
\<close>

definition decodeHexToFlags :: "string \<Rightarrow> jsnum \<Rightarrow> string \<Rightarrow> error + (string \<times> jsnum) list" where
  "decodeHexToFlags hexValue version devType =
     (let hexIntRev = reverseHex hexValue in
      case lookup2 FLAGS_MAPPING devType version of
        None \<Rightarrow> Inl TypeError
      | Some flags \<Rightarrow>
          Inr (fold (\<lambda>(flag, bitPosition, bitSize) flagValues.
                       AList.update flag (flagValue hexIntRev bitPosition bitSize) flagValues)
                 flags []))"

text \<open>\<^verbatim>\<open>flagValues[flag]\<close> of the decoder's result, for stating what one flag decodes to.\<close>

definition decodedFlag :: "string \<Rightarrow> jsnum \<Rightarrow> string \<Rightarrow> string \<Rightarrow> jsnum option" where
  "decodedFlag hexValue version devType flag =
     (case decodeHexToFlags hexValue version devType of
        Inl e \<Rightarrow> None
      | Inr flagValues \<Rightarrow> map_of flagValues flag)"

section \<open>The bit decoder in the words of the specification\<close>

text \<open>
  Section 4.2 of the specification describes the decoder on unbounded integers, for a payload
  of hexadecimal digits: \<open>raw\<close> is the payload read in base 16; \<open>raw_rev\<close> is its binary
  rendering, zero-padded to four bits per digit, reversed and read in base 2; a field is cut
  out of \<open>raw_rev\<close> by mask and shift, and its \<open>bit_width\<close>-bit rendering is reversed again.
  These definitions follow that text, not the code; the theorems compare the code with them.
\<close>

definition spec_raw :: "string \<Rightarrow> int" where
  "spec_raw payload_hex = digitsValue 16 payload_hex"

definition spec_raw_rev :: "string \<Rightarrow> int" where
  "spec_raw_rev payload_hex =
     digitsValue 2 (rev (padStart (binDigits (spec_raw payload_hex)) (4 * length payload_hex) CHR ''0''))"

definition spec_decode_field :: "string \<Rightarrow> nat \<Rightarrow> nat \<Rightarrow> int" where
  "spec_decode_field payload_hex bit_offset bit_width =
     (let raw_rev = spec_raw_rev payload_hex;
          mask = push_bit bit_offset (2 ^ bit_width - 1);
          segment_rev = drop_bit bit_offset (raw_rev AND mask)
      in digitsValue 2 (rev (padStart (binDigits segment_rev) bit_width CHR ''0'')))"

text \<open>
  The same section's formula for one bit: bit \<open>i\<close> of \<open>raw_rev\<close> is bit \<open>4 * len - 1 - i\<close> of
  \<open>raw\<close>.
\<close>

definition spec_bit :: "string \<Rightarrow> nat \<Rightarrow> int" where
  "spec_bit payload_hex i =
     (if i < 4 * length payload_hex \<and> bit (spec_raw payload_hex) (4 * length payload_hex - 1 - i)
      then 1 else 0)"

text \<open>
  The two extractions the specification warns against: a field cut out of \<open>raw\<close> with no
  reversal at all, and a field cut out of \<open>raw_rev\<close> without the second, per-field reversal.
\<close>

definition no_reversal_field :: "string \<Rightarrow> nat \<Rightarrow> nat \<Rightarrow> int" where
  "no_reversal_field payload_hex bit_offset bit_width =
     take_bit bit_width (drop_bit bit_offset (spec_raw payload_hex))"

definition payload_reversal_field :: "string \<Rightarrow> nat \<Rightarrow> nat \<Rightarrow> int" where
  "payload_reversal_field payload_hex bit_offset bit_width =
     take_bit bit_width (drop_bit bit_offset (spec_raw_rev payload_hex))"

section \<open>parseFileName\<close>

text \<open>
  The console is an output of the function: the messages are kept in call order, each with
  the values its template string prints.
\<close>

datatype msg =
    DebugNoVersion string
      \<comment> \<open>\<^verbatim>\<open>${fileName} does not match known formats, could not find version\<close>\<close>
  | DebugUnknownLength string
      \<comment> \<open>\<^verbatim>\<open>${fileName} does not match known formats, unknown length\<close>\<close>
  | DebugUnknownVersion string jsnum nat jsnum
      \<comment> \<open>\<^verbatim>\<open>${fileName} has version ${version}, with hex length ${hexValue.length} which is
          not yet known, using version ${newVersion} instead\<close>\<close>
  | DebugUnexpectedLength string jsnum nat nat
      \<comment> \<open>\<^verbatim>\<open>${fileName} with version ${version} has unexpected hex length
          ${hexValue.length}, expected ${...}\<close>\<close>
  | LogFlags string jsnum string "(string \<times> jsnum) list"
      \<comment> \<open>\<^verbatim>\<open>console.log(hexValue, version, devType, flagValues)\<close>\<close>

text \<open>
  Lines 23 to 25: the part of the file name before its last dot, cut at the last slash and
  split at the underscores (\<^verbatim>\<open>split\<close>).
\<close>

definition nameTokens :: "string \<Rightarrow> string list" where
  "nameTokens fileName =
     (let parts = splitOn CHR ''.'' fileName;
          pathName = last (splitOn CHR ''/'' (joinWith CHR ''.'' (butlast parts)));
          name = last (splitOn CHR ''/'' pathName)
      in splitOn CHR ''_'' name)"

text \<open>
  Lines 33 to 56: the device type and the tokens, by the number of tokens:
  \<^verbatim>\<open>(devType, startDate, startTime, endTime, hexValue, fileSize)\<close>, or nothing for a count
  that is neither 6 nor 9.
\<close>

definition selectTokens ::
  "string list \<Rightarrow>
     (string \<times> string option \<times> string option \<times> string option \<times> string option \<times> string option) option"
where
  "selectTokens split =
     (if length split = 6 then
        Some (''cam'', jsIndex split 1, jsIndex split 2, jsIndex split 3,
              jsIndex split 4, jsIndex split 5)
      else if length split = 9 then
        Some (''hub'', jsIndex split 1, jsIndex split 2, jsIndex split 3,
              jsIndex split 7, jsIndex split 8)
      else None)"

text \<open>Lines 58 to 62: the version the decoder is called with, and the message of a fallback.\<close>

definition hasVersion :: "string \<Rightarrow> jsnum \<Rightarrow> bool" where
  \<comment> \<open>\<^verbatim>\<open>FLAGS_MAPPING[devType].hasOwnProperty(version)\<close>\<close>
  "hasVersion devType version = (lookup2 FLAGS_MAPPING devType version \<noteq> None)"

definition versionKeys :: "string \<Rightarrow> int list" where
  \<comment> \<open>\<^verbatim>\<open>Object.keys(FLAGS_MAPPING[devType]).map(Number)\<close>\<close>
  "versionKeys devType =
     (case map_of FLAGS_MAPPING devType of None \<Rightarrow> [] | Some byVersion \<Rightarrow> map fst byVersion)"

definition resolveVersion :: "string \<Rightarrow> string \<Rightarrow> jsnum \<Rightarrow> string \<Rightarrow> jsnum \<times> msg list" where
  "resolveVersion fileName devType version hexValue =
     (if \<not> hasVersion devType version then
        (let newVersion = mathMax (versionKeys devType)
         in (newVersion, [DebugUnknownVersion fileName version (length hexValue) newVersion]))
      else (version, []))"

text \<open>Lines 64 to 66: the expected length, 0 where the table has none, and the message.\<close>

definition expectedLength :: "string \<Rightarrow> jsnum \<Rightarrow> nat" where
  \<comment> \<open>\<^verbatim>\<open>FLAGS_LENGTH[devType][version] || 0\<close>\<close>
  "expectedLength devType version =
     (case lookup2 FLAGS_LENGTH devType version of None \<Rightarrow> 0 | Some l \<Rightarrow> l)"

definition checkLength :: "string \<Rightarrow> string \<Rightarrow> jsnum \<Rightarrow> string \<Rightarrow> msg list" where
  "checkLength fileName devType version hexValue =
     (if length hexValue \<noteq> expectedLength devType version then
        [DebugUnexpectedLength fileName version (length hexValue) (expectedLength devType version)]
      else [])"

text \<open>Lines 71 to 87: the detection classes, pushed in the order of the tests.\<close>

definition detectionClasses :: "(string \<times> jsnum) list \<Rightarrow> string list" where
  "detectionClasses flagValues =
     (let dc = [];
          dc = (if truthy (map_of flagValues ''ai_pd'') then dc @ [''person''] else dc);
          dc = (if truthy (map_of flagValues ''ai_vd'') then dc @ [''vehicle''] else dc);
          dc = (if truthy (map_of flagValues ''ai_ad'') then dc @ [''animal''] else dc);
          dc = (if truthy (map_of flagValues ''is_motion_record'') then dc @ [''motion''] else dc);
          dc = (if truthy (map_of flagValues ''package_event'') then dc @ [''package''] else dc)
      in if dc = [] then dc @ [''motion''] else dc)"

text \<open>
  The whole function. The result is the console and what the call returns: \<open>Inr None\<close> for
  \<^verbatim>\<open>null\<close>, \<open>Inr (Some classes)\<close> for the object \<^verbatim>\<open>{ detectionClasses }\<close>, \<open>Inl TypeError\<close> where
  a property of \<^verbatim>\<open>undefined\<close> would be read (\<^verbatim>\<open>split[0].startsWith\<close>, \<^verbatim>\<open>hexValue.length\<close>,
  the table entry in the decoder).
\<close>

definition parseFileName :: "string \<Rightarrow> msg list \<times> (error + string list option)" where
  "parseFileName fileName =
     (let split = nameTokens fileName in
      (case jsIndex split 0 of
         None \<Rightarrow> ([], Inl TypeError)
       | Some split0 \<Rightarrow>
          (if \<not> startsWith split0 ''Rec'' \<or> length split0 \<noteq> 6 then
             ([DebugNoVersion fileName], Inr None)
           else
             (let version =
                   parseInt (case jsIndex split0 5 of None \<Rightarrow> ''undefined'' | Some c \<Rightarrow> [c]) None
              in
                (case selectTokens split of
                   None \<Rightarrow> ([DebugUnknownLength fileName], Inr None)
                 | Some (devType, startDate, startTime, endTime, hexValueOpt, fileSize) \<Rightarrow>
                    (case hexValueOpt of
                       None \<Rightarrow> ([], Inl TypeError)
                     | Some hexValue \<Rightarrow>
                        (let (version, fallback) =
                               resolveVersion fileName devType version hexValue;
                             mismatch = checkLength fileName devType version hexValue
                         in
                           (case decodeHexToFlags hexValue version devType of
                              Inl e \<Rightarrow> (fallback @ mismatch, Inl e)
                            | Inr flagValues \<Rightarrow>
                               (fallback @ mismatch @
                                  [LogFlags hexValue version devType flagValues],
                                Inr (Some (detectionClasses flagValues)))))))))))"

section \<open>Auxiliary notions for the proofs\<close>

text \<open>A binary digit, and a field whose mask stays within the 31 value bits of a signed
  32-bit integer once its offset is taken modulo 32.\<close>

definition isBin :: "char \<Rightarrow> bool" where
  "isBin c = (c = CHR ''0'' \<or> c = CHR ''1'')"

definition fieldFits :: "nat \<Rightarrow> nat \<Rightarrow> bool" where
  "fieldFits bitPosition bitSize \<longleftrightarrow>
     0 < bitSize \<and> bitSize \<le> 30 \<and> bitPosition mod 32 + bitSize \<le> 31"

section \<open>Tokens of a file name\<close>

lemma splitOn_not_Nil [simp]: "splitOn c s \<noteq> []"
  by (induction s) (auto split: list.splits)

lemma splitOn_no_sep: "c \<notin> set s \<Longrightarrow> splitOn c s = [s]"
  by (induction s) auto

lemma nameTokens_not_Nil [simp]: "nameTokens fileName \<noteq> []"
  by (simp add: nameTokens_def Let_def)

lemma jsIndex_0: "xs \<noteq> [] \<Longrightarrow> jsIndex xs 0 = Some (hd xs)"
  by (cases xs) (auto simp: jsIndex_def)

lemma nameTokens_no_dot: "CHR ''.'' \<notin> set fileName \<Longrightarrow> nameTokens fileName = [[]]"
  by (simp add: nameTokens_def splitOn_no_sep)

text \<open>
  Claim C10. A file name without a dot is rejected, whatever its underscore tokens are:
  everything before the last dot is the empty string, so \<^verbatim>\<open>split\<close> is the single empty token,
  which does not start with \<^verbatim>\<open>Rec\<close>; the call logs the "could not find version" message and
  returns \<^verbatim>\<open>null\<close>.
\<close>

theorem parseFileName_no_dot:
  "CHR ''.'' \<notin> set fileName \<Longrightarrow>
     nameTokens fileName = [[]] \<and>
     parseFileName fileName = ([DebugNoVersion fileName], Inr None)"
  by (simp add: parseFileName_def nameTokens_no_dot jsIndex_def startsWith_def)

theorem parseFileName_no_dot_witness:
  "CHR ''.'' \<notin> set ''RecM02_20201222_075939_080140_6D28808_1A468F9'' \<and>
   parseFileName ''RecM02_20201222_075939_080140_6D28808_1A468F9'' =
     ([DebugNoVersion ''RecM02_20201222_075939_080140_6D28808_1A468F9''], Inr None)"
  using parseFileName_no_dot [of "''RecM02_20201222_075939_080140_6D28808_1A468F9''"]
  by simp

lemma selectTokens_SomeD:
  "selectTokens split = Some (devType, startDate, startTime, endTime, hexValueOpt, fileSize) \<Longrightarrow>
     (devType = ''cam'' \<or> devType = ''hub'') \<and> (\<exists>hexValue. hexValueOpt = Some hexValue)"
  by (auto simp: selectTokens_def jsIndex_def split: if_splits)

lemma selectTokens_None_iff:
  "selectTokens split = None \<longleftrightarrow> length split \<noteq> 6 \<and> length split \<noteq> 9"
  by (simp add: selectTokens_def)

lemma mathMax_cam: "mathMax (versionKeys ''cam'') = Fin 9"
  by (simp add: mathMax_def versionKeys_def FLAGS_MAPPING_def)

lemma mathMax_hub: "mathMax (versionKeys ''hub'') = Fin 2"
  by (simp add: mathMax_def versionKeys_def FLAGS_MAPPING_def)

lemma hasVersion_cam: "hasVersion ''cam'' version \<longleftrightarrow> version \<in> {Fin 2, Fin 3, Fin 4, Fin 9}"
  by (auto simp: hasVersion_def lookup2_def FLAGS_MAPPING_def split: jsnum.splits)

lemma hasVersion_hub: "hasVersion ''hub'' version \<longleftrightarrow> version \<in> {Fin 0, Fin 1, Fin 2}"
  by (auto simp: hasVersion_def lookup2_def FLAGS_MAPPING_def split: jsnum.splits)

lemma hasVersion_resolveVersion:
  "devType = ''cam'' \<or> devType = ''hub'' \<Longrightarrow>
     hasVersion devType (fst (resolveVersion fileName devType version hexValue))"
  by (auto simp: resolveVersion_def Let_def mathMax_cam mathMax_hub hasVersion_cam hasVersion_hub)

lemma decodeHexToFlags_total:
  "hasVersion devType version \<Longrightarrow> \<exists>flagValues. decodeHexToFlags hexValue version devType = Inr flagValues"
  by (auto simp: hasVersion_def decodeHexToFlags_def Let_def)

section \<open>What parseFileName returns\<close>

text \<open>
  The branches of \<^verbatim>\<open>parseFileName\<close>, with the reads that cannot be \<^verbatim>\<open>undefined\<close> resolved:
  neither \<^verbatim>\<open>split[0]\<close>, \<^verbatim>\<open>split[0][5]\<close> nor \<^verbatim>\<open>hexValue\<close> is missing where it is read, and the
  decoder finds its table.
\<close>

lemma parseFileName_cases:
  "parseFileName fileName =
     (let split = nameTokens fileName; split0 = hd split in
      if \<not> startsWith split0 ''Rec'' \<or> length split0 \<noteq> 6 then ([DebugNoVersion fileName], Inr None)
      else if length split \<noteq> 6 \<and> length split \<noteq> 9 then ([DebugUnknownLength fileName], Inr None)
      else
        let devType = (if length split = 6 then ''cam'' else ''hub'');
            hexValue = split ! (if length split = 6 then 4 else 7);
            version = fst (resolveVersion fileName devType (parseInt [split0 ! 5] None) hexValue);
            fallback = snd (resolveVersion fileName devType (parseInt [split0 ! 5] None) hexValue);
            flagValues = projr (decodeHexToFlags hexValue version devType)
        in (fallback @ checkLength fileName devType version hexValue @ [LogFlags hexValue version devType flagValues],
            Inr (Some (detectionClasses flagValues))))"
proof -
  let ?toks = "nameTokens fileName"
  let ?tok0 = "hd ?toks"
  have idx0: "jsIndex ?toks 0 = Some ?tok0" by (simp add: jsIndex_0)
  show ?thesis
  proof (cases "\<not> startsWith ?tok0 ''Rec'' \<or> length ?tok0 \<noteq> 6")
    case True
    then show ?thesis by (auto simp: parseFileName_def idx0 Let_def)
  next
    case hdr: False
    then have c5: "jsIndex ?tok0 5 = Some (?tok0 ! 5)" by (simp add: jsIndex_def)
    show ?thesis
    proof (cases "length ?toks \<noteq> 6 \<and> length ?toks \<noteq> 9")
      case True
      then have "selectTokens ?toks = None" by (simp add: selectTokens_None_iff)
      with hdr show ?thesis using True by (simp add: parseFileName_def idx0 Let_def)
    next
      case False
      define devType where "devType = (if length ?toks = 6 then ''cam'' else ''hub'')"
      define hexValue where "hexValue = ?toks ! (if length ?toks = 6 then 4 else 7)"
      define rv where "rv = resolveVersion fileName devType (parseInt [?tok0 ! 5] None) hexValue"
      have sel: "\<exists>a b c d. selectTokens ?toks = Some (devType, a, b, c, Some hexValue, d)"
        using False by (auto simp: selectTokens_def jsIndex_def devType_def hexValue_def)
      have dt: "devType = ''cam'' \<or> devType = ''hub''" by (simp add: devType_def)
      have "hasVersion devType (fst rv)" unfolding rv_def by (rule hasVersion_resolveVersion [OF dt])
      then obtain flagValues where fv: "decodeHexToFlags hexValue (fst rv) devType = Inr flagValues"
        using decodeHexToFlags_total by blast
      from sel obtain a b c d where sel': "selectTokens ?toks = Some (devType, a, b, c, Some hexValue, d)" by blast
      have "parseFileName fileName =
              (snd rv @ checkLength fileName devType (fst rv) hexValue @ [LogFlags hexValue (fst rv) devType flagValues],
               Inr (Some (detectionClasses flagValues)))"
        using hdr fv by (simp add: parseFileName_def idx0 c5 sel' Let_def rv_def [symmetric] split_beta)
      then show ?thesis using hdr False fv 
        by (simp add: Let_def devType_def [symmetric] hexValue_def [symmetric] rv_def [symmetric])
    qed
  qed
qed

lemma nameTokens_cam_example:
  "nameTokens ''Mp4Record/2023-04-26/RecS02_DST20230426_145918_150032_2B14808_32F1DF.mp4'' =
     [''RecS02'', ''DST20230426'', ''145918'', ''150032'', ''2B14808'', ''32F1DF'']"
  by (simp add: nameTokens_def)

lemma nameTokens_hub_example:
  "nameTokens ''/mnt/sda/Mp4Record/2024-08-27/RecM02_DST20240827_090302_090334_0_800_800_033C820000_61B6F0.mp4'' =
     [''RecM02'', ''DST20240827'', ''090302'', ''090334'', ''0'', ''800'', ''800'', ''033C820000'', ''61B6F0'']"
  by (simp add: nameTokens_def)

lemma nameTokens_seven_example:
  "nameTokens ''RecM02_a_b_c_d_e_f.mp4'' = [''RecM02'', ''a'', ''b'', ''c'', ''d'', ''e'', ''f'']"
  by (simp add: nameTokens_def)

lemma nameTokens_Rec_example: "nameTokens ''Rec.mp4'' = [''Rec'']"
  by (simp add: nameTokens_def)

text \<open>
  Claim C3. \<^verbatim>\<open>parseFileName\<close> returns \<^verbatim>\<open>null\<close> exactly when the first underscore token of the
  name does not start with \<^verbatim>\<open>Rec\<close>, or is not 6 characters long, or the number of tokens is
  neither 6 nor 9. In every other case it returns detection classes and throws nothing,
  whatever the version character and the length or content of the payload token are.
\<close>

theorem parseFileName_null_iff:
  assumes "split = nameTokens fileName"
  shows "(snd (parseFileName fileName) = Inr None \<longleftrightarrow>
            \<not> startsWith (split ! 0) ''Rec'' \<or> length (split ! 0) \<noteq> 6 \<or>
            (length split \<noteq> 6 \<and> length split \<noteq> 9)) \<and>
         (snd (parseFileName fileName) = Inr None \<or>
            (\<exists>classes. snd (parseFileName fileName) = Inr (Some classes)))"
  unfolding assms by (auto simp add: parseFileName_cases [of fileName] Let_def hd_conv_nth)

theorem parseFileName_null_iff_witness:
  "(\<exists>classes. snd (parseFileName ''Mp4Record/2023-04-26/RecS02_DST20230426_145918_150032_2B14808_32F1DF.mp4'')
      = Inr (Some classes)) \<and>
   snd (parseFileName ''Rec.mp4'') = Inr None \<and>
   snd (parseFileName ''RecM02_a_b_c_d_e_f.mp4'') = Inr None"
  using parseFileName_null_iff [OF nameTokens_cam_example [symmetric]]
    parseFileName_null_iff [OF nameTokens_Rec_example [symmetric]]
    parseFileName_null_iff [OF nameTokens_seven_example [symmetric]]
  by (auto simp add: startsWith_def)

text \<open>
  Claim C7. With 6 tokens the device type is \<^verbatim>\<open>cam\<close>, the payload is token 4 and the file size
  token 5; with 9 tokens the device type is \<^verbatim>\<open>hub\<close>, the payload is token 7 and the file size
  token 8. For a name that passes the header test, these are the payload and the device type
  the decoder is called with, as the final \<^verbatim>\<open>console.log\<close> shows.
\<close>

theorem tokens_by_count:
  assumes "split = nameTokens fileName"
  shows
  "(length split = 6 \<longrightarrow>
      selectTokens split =
        Some (''cam'', Some (split ! 1), Some (split ! 2), Some (split ! 3), Some (split ! 4),
              Some (split ! 5)) \<and>
      (startsWith (split ! 0) ''Rec'' \<and> length (split ! 0) = 6 \<longrightarrow>
         (\<exists>version flagValues.
            last (fst (parseFileName fileName)) = LogFlags (split ! 4) version ''cam'' flagValues))) \<and>
   (length split = 9 \<longrightarrow>
      selectTokens split =
        Some (''hub'', Some (split ! 1), Some (split ! 2), Some (split ! 3), Some (split ! 7),
              Some (split ! 8)) \<and>
      (startsWith (split ! 0) ''Rec'' \<and> length (split ! 0) = 6 \<longrightarrow>
         (\<exists>version flagValues.
            last (fst (parseFileName fileName)) = LogFlags (split ! 7) version ''hub'' flagValues)))"
  unfolding assms
  by (simp add: parseFileName_cases [of fileName] Let_def hd_conv_nth selectTokens_def jsIndex_def)

theorem tokens_by_count_witness:
  "selectTokens (nameTokens ''Mp4Record/2023-04-26/RecS02_DST20230426_145918_150032_2B14808_32F1DF.mp4'') =
     Some (''cam'', Some ''DST20230426'', Some ''145918'', Some ''150032'', Some ''2B14808'', Some ''32F1DF'') \<and>
   (\<exists>version flagValues.
      last (fst (parseFileName ''Mp4Record/2023-04-26/RecS02_DST20230426_145918_150032_2B14808_32F1DF.mp4'')) =
        LogFlags ''2B14808'' version ''cam'' flagValues) \<and>
   selectTokens (nameTokens ''/mnt/sda/Mp4Record/2024-08-27/RecM02_DST20240827_090302_090334_0_800_800_033C820000_61B6F0.mp4'') =
     Some (''hub'', Some ''DST20240827'', Some ''090302'', Some ''090334'', Some ''033C820000'', Some ''61B6F0'') \<and>
   (\<exists>version flagValues.
      last (fst (parseFileName ''/mnt/sda/Mp4Record/2024-08-27/RecM02_DST20240827_090302_090334_0_800_800_033C820000_61B6F0.mp4'')) =
        LogFlags ''033C820000'' version ''hub'' flagValues)"
  using tokens_by_count [OF nameTokens_cam_example [symmetric]]
    tokens_by_count [OF nameTokens_hub_example [symmetric]]
  by (simp add: startsWith_def nameTokens_cam_example nameTokens_hub_example)

lemma Max_versionKeys_cam: "Max (set (versionKeys ''cam'')) = 9"
  by (simp add: versionKeys_def FLAGS_MAPPING_def)

lemma Max_versionKeys_hub: "Max (set (versionKeys ''hub'')) = 2"
  by (simp add: versionKeys_def FLAGS_MAPPING_def)

text \<open>
  Claim C4. For a version that the table of the device type does not hold, the version used
  is the largest key of that table (9 for \<^verbatim>\<open>cam\<close>, 2 for \<^verbatim>\<open>hub\<close>), whatever the unknown version
  is; one debug message reports the fallback, and the decoder returns flags for the new version.
\<close>

theorem version_fallback:
  assumes "devType = ''cam'' \<or> devType = ''hub''" and "\<not> hasVersion devType version"
  shows "resolveVersion fileName devType version hexValue =
           (Fin (Max (set (versionKeys devType))),
            [DebugUnknownVersion fileName version (length hexValue)
               (Fin (Max (set (versionKeys devType))))]) \<and>
         Max (set (versionKeys devType)) = (if devType = ''cam'' then 9 else 2) \<and>
         hasVersion devType (Fin (Max (set (versionKeys devType)))) \<and>
         (\<exists>flagValues.
            decodeHexToFlags hexValue (Fin (Max (set (versionKeys devType)))) devType =
              Inr flagValues)"
proof -
  have mm: "mathMax (versionKeys devType) = Fin (Max (set (versionKeys devType)))"
    using assms(1) by (auto simp: mathMax_cam mathMax_hub Max_versionKeys_cam Max_versionKeys_hub)
  have rv: "resolveVersion fileName devType version hexValue =
             (Fin (Max (set (versionKeys devType))),
              [DebugUnknownVersion fileName version (length hexValue)
                 (Fin (Max (set (versionKeys devType))))])"
    using assms(2) by (simp add: resolveVersion_def mm Let_def)
  have keys: "Max (set (versionKeys devType)) = (if devType = ''cam'' then 9 else 2)"
    using assms(1) by (auto simp: Max_versionKeys_cam Max_versionKeys_hub)
  have hv: "hasVersion devType (Fin (Max (set (versionKeys devType))))"
    using assms(1)
    by (auto simp: Max_versionKeys_cam Max_versionKeys_hub hasVersion_cam hasVersion_hub)
  from rv keys hv decodeHexToFlags_total [OF hv] show ?thesis by blast
qed

theorem version_fallback_witness:
  "\<not> hasVersion ''cam'' (Fin 99) \<and>
   resolveVersion ''RecM0c_20201222_075939_080140_6D28808_1A468F9.mp4'' ''cam'' (Fin 99) ''6D28808'' =
     (Fin 9, [DebugUnknownVersion ''RecM0c_20201222_075939_080140_6D28808_1A468F9.mp4'' (Fin 99) 7 (Fin 9)]) \<and>
   (\<exists>flagValues. decodeHexToFlags ''6D28808'' (Fin 9) ''cam'' = Inr flagValues)"
  using version_fallback [of "''cam''" "Fin 99" "''RecM0c_20201222_075939_080140_6D28808_1A468F9.mp4''" "''6D28808''"]
  by (simp add: hasVersion_cam Max_versionKeys_cam)

text \<open>
  Claim C5. The detection classes are \<^verbatim>\<open>person\<close>, \<^verbatim>\<open>vehicle\<close>, \<^verbatim>\<open>animal\<close>, \<^verbatim>\<open>motion\<close>,
  \<^verbatim>\<open>package\<close>, in this order, one for each of the flags \<^verbatim>\<open>ai_pd\<close>, \<^verbatim>\<open>ai_vd\<close>, \<^verbatim>\<open>ai_ad\<close>,
  \<^verbatim>\<open>is_motion_record\<close>, \<^verbatim>\<open>package_event\<close> that is truthy, and \<^verbatim>\<open>motion\<close> alone when none is.
  A missing flag counts as a zero. The flags \<^verbatim>\<open>{ai_pd: 1, ai_vd: 1}\<close> give person and vehicle,
  and flags that are all zero give \<^verbatim>\<open>motion\<close>.
\<close>

theorem detectionClasses_order:
  "detectionClasses flagValues =
     (let fired = filter (\<lambda>(flag, cls). truthy (map_of flagValues flag))
                    [(''ai_pd'', ''person''), (''ai_vd'', ''vehicle''), (''ai_ad'', ''animal''),
                     (''is_motion_record'', ''motion''), (''package_event'', ''package'')]
      in if fired = [] then [''motion''] else map snd fired) \<and>
   (flag \<notin> fst ` set flagValues \<longrightarrow>
      detectionClasses ((flag, Fin 0) # flagValues) = detectionClasses flagValues) \<and>
   detectionClasses [(''ai_pd'', Fin 1), (''ai_vd'', Fin 1)] = [''person'', ''vehicle''] \<and>
   ((\<forall>(flag, v) \<in> set flagValues. v = Fin 0) \<longrightarrow> detectionClasses flagValues = [''motion''])"
proof -
  have zero: "\<not> truthy (map_of flagValues k)" if "\<forall>(flag, v) \<in> set flagValues. v = Fin 0" for k
  proof (cases "map_of flagValues k")
    case None
    then show ?thesis by (simp add: truthy_def)
  next
    case (Some v)
    then have "(k, v) \<in> set flagValues" by (rule map_of_SomeD)
    with that have "v = Fin 0" by auto
    with Some show ?thesis by (simp add: truthy_def)
  qed
  have missing: "map_of flagValues flag = None" if "flag \<notin> fst ` set flagValues"
    using that by (simp add: map_of_eq_None_iff)
  have a: "detectionClasses flagValues =
     (let fired = filter (\<lambda>(flag, cls). truthy (map_of flagValues flag))
                    [(''ai_pd'', ''person''), (''ai_vd'', ''vehicle''), (''ai_ad'', ''animal''),
                     (''is_motion_record'', ''motion''), (''package_event'', ''package'')]
      in if fired = [] then [''motion''] else map snd fired)"
    by (simp add: detectionClasses_def Let_def)
  have b: "detectionClasses ((flag, Fin 0) # flagValues) = detectionClasses flagValues"
    if "flag \<notin> fst ` set flagValues"
  proof -
    have "truthy (map_of ((flag, Fin 0) # flagValues) k) = truthy (map_of flagValues k)" for k
      using missing [OF that] by (simp add: truthy_def)
    then show ?thesis by (simp only: detectionClasses_def)
  qed
  have c: "detectionClasses [(''ai_pd'', Fin 1), (''ai_vd'', Fin 1)] = [''person'', ''vehicle'']"
    by (simp add: detectionClasses_def truthy_def)
  have d: "detectionClasses flagValues = [''motion'']" if "\<forall>(flag, v) \<in> set flagValues. v = Fin 0"
    using zero [OF that] by (simp add: detectionClasses_def)
  from a b c d show ?thesis by blast
qed

theorem detectionClasses_order_witness:
  "detectionClasses [(''ai_pd'', Fin 1), (''ai_fd'', Fin 0), (''ai_vd'', Fin 1), (''ai_ad'', Fin 0)] =
     [''person'', ''vehicle''] \<and>
   detectionClasses [(''ai_pd'', Fin 0), (''ai_vd'', Fin 0), (''package_event'', Fin 0)] = [''motion''] \<and>
   detectionClasses [(''package_event'', Fin 1), (''is_motion_record'', Fin 1), (''ai_ad'', Fin 1)] =
     [''animal'', ''motion'', ''package'']"
  using detectionClasses_order [of "[(''ai_pd'', Fin 1), (''ai_fd'', Fin 0), (''ai_vd'', Fin 1), (''ai_ad'', Fin 0)]"]
    detectionClasses_order [of "[(''ai_pd'', Fin 0), (''ai_vd'', Fin 0), (''package_event'', Fin 0)]"]
    detectionClasses_order [of "[(''package_event'', Fin 1), (''is_motion_record'', Fin 1), (''ai_ad'', Fin 1)]"]
  by (simp add: truthy_def)

section \<open>Digits, doubles and parseInt on binary strings\<close>

lemma bitLength_le: "n < 2 ^ k \<Longrightarrow> bitLength n \<le> k"
proof (induction k arbitrary: n)
  case 0
  then show ?case by (simp add: bitLength.simps)
next
  case (Suc k)
  show ?case
  proof (cases "n \<le> 0")
    case True
    then show ?thesis by (simp add: bitLength.simps)
  next
    case False
    from Suc.prems have "n div 2 < 2 ^ k" by simp
    then have "bitLength (n div 2) \<le> k" by (rule Suc.IH)
    with False show ?thesis by (subst bitLength.simps) simp
  qed
qed

lemma toDouble_exact: "\<bar>i\<bar> < 2 ^ 53 \<Longrightarrow> toDouble i = Fin i"
  using bitLength_le [of "\<bar>i\<bar>" 53] by (simp add: toDouble_def Let_def)

lemma isBin_binDigits: "c \<in> set (binDigits n) \<Longrightarrow> isBin c"
proof (induction n rule: binDigits.induct)
  case (1 n)
  then show ?case by (subst (asm) binDigits.simps) (auto simp: isBin_def split: if_splits)
qed

lemma binDigits_not_Nil [simp]: "binDigits n \<noteq> []"
  by (subst binDigits.simps) simp

lemma length_binDigits: "n < 2 ^ k \<Longrightarrow> 0 < k \<Longrightarrow> length (binDigits n) \<le> k"
proof (induction k arbitrary: n)
  case 0
  then show ?case by simp
next
  case (Suc k)
  show ?case
  proof (cases "n < 2")
    case True
    then show ?thesis by (subst binDigits.simps) simp
  next
    case False
    with Suc.prems have k: "0 < k" by (cases k) auto
    from Suc.prems have "n div 2 < 2 ^ k" by simp
    then have "length (binDigits (n div 2)) \<le> k" using k by (rule Suc.IH)
    with False show ?thesis by (subst binDigits.simps) simp
  qed
qed

lemma isBin_digit [simp]: "isBin c \<Longrightarrow> isRadixDigit 2 c"
  by (auto simp: isBin_def isRadixDigit_def digitValue_def)

lemma isBin_not_space [simp]: "isBin c \<Longrightarrow> \<not> isWhiteSpace c"
  by (auto simp: isBin_def isWhiteSpace_def)

lemma digitsValue_Nil [simp]: "digitsValue R [] = 0"
  by (simp add: digitsValue_def)

lemma digitsValue_snoc [simp]:
  "digitsValue R (u @ [c]) = digitsValue R u * R + the (digitValue c)"
  by (simp add: digitsValue_def)

lemma digitsValue_append:
  "digitsValue R (u @ v) = digitsValue R u * R ^ length v + digitsValue R v"
proof (induction v rule: rev_induct)
  case Nil
  then show ?case by simp
next
  case (snoc c v)
  have "digitsValue R (u @ v @ [c]) = digitsValue R ((u @ v) @ [c])" by simp
  also have "\<dots> = digitsValue R (u @ v) * R + the (digitValue c)" by (rule digitsValue_snoc)
  finally show ?case using snoc by (simp add: algebra_simps)
qed

lemma digitsValue_zeros [simp]: "digitsValue R (replicate m CHR ''0'') = 0"
proof (induction m)
  case 0
  then show ?case by simp
next
  case (Suc m)
  have "replicate (Suc m) CHR ''0'' = replicate m CHR ''0'' @ [CHR ''0'']"
    by (simp add: replicate_append_same)
  then show ?case using Suc by (simp add: digitValue_def del: replicate_Suc)
qed

lemma digitsValue_bin_bounds:
  "\<forall>c \<in> set u. isBin c \<Longrightarrow> 0 \<le> digitsValue 2 u \<and> digitsValue 2 u < 2 ^ length u"
proof (induction u rule: rev_induct)
  case Nil
  then show ?case by simp
next
  case (snoc c u)
  then have ih: "0 \<le> digitsValue 2 u" "digitsValue 2 u < 2 ^ length u" by simp_all
  from snoc.prems have "isBin c" by simp
  then have d: "the (digitValue c) = 0 \<or> the (digitValue c) = 1"
    by (auto simp: isBin_def digitValue_def)
  from ih d show ?case by auto
qed

lemma parseInt_bin_prefix:
  assumes "a \<noteq> []" and "\<forall>c \<in> set a. isBin c" and "b = [] \<or> \<not> isRadixDigit 2 (hd b)"
  shows "parseInt (a @ b) (Some 2) = toDouble (digitsValue 2 a)"
proof -
  from assms(1) obtain x xs where a: "a = x # xs" by (cases a) auto
  with assms(2) have x: "isBin x" by simp
  then have hdx: "x \<noteq> CHR ''-''" "x \<noteq> CHR ''+''" by (auto simp: isBin_def)
  have tw: "takeWhile (isRadixDigit 2) (a @ b) = a"
  proof -
    have "takeWhile (isRadixDigit 2) (a @ b) = a @ takeWhile (isRadixDigit 2) b"
      using assms(2) by (intro takeWhile_append2) auto
    moreover have "takeWhile (isRadixDigit 2) b = []"
      using assms(3) by (cases b) auto
    ultimately show ?thesis by simp
  qed
  have dw: "dropWhile isWhiteSpace (a @ b) = a @ b"
    using x by (simp add: a)
  show ?thesis
    unfolding parseInt_def dw by (simp add: Let_def tw assms(1)) (simp add: a hdx)
qed

section \<open>The mask and the segment in 32-bit arithmetic\<close>

lemma wrap32_id: "- (2 ^ 31) \<le> i \<Longrightarrow> i < 2 ^ 31 \<Longrightarrow> wrap32 i = i"
  by (simp add: wrap32_def)

lemma wrap32_nonneg: "0 \<le> i \<Longrightarrow> i < 2 ^ 31 \<Longrightarrow> wrap32 i = i"
  by (simp add: wrap32_def)

lemma wrap32_range: "- (2 ^ 31) \<le> wrap32 i \<and> wrap32 i < 2 ^ 31"
proof -
  have "0 \<le> (i + 2 ^ 31) mod 2 ^ 32" "(i + 2 ^ 31) mod 2 ^ 32 < (2 ^ 32 :: int)"
    by simp_all
  then show ?thesis by (simp add: wrap32_def)
qed

lemma wrap32_wrap32 [simp]: "wrap32 (wrap32 i) = wrap32 i"
  using wrap32_range [of i] by (intro wrap32_id) simp_all

lemma pow_le_31: "n \<le> 31 \<Longrightarrow> (2 :: int) ^ n \<le> 2 ^ 31"
  by (rule power_increasing) simp_all

lemma field_mask:
  assumes "0 < bitSize" "bitSize \<le> 30" "bitPosition mod 32 + bitSize \<le> 31"
  shows "shl (shl 1 bitSize - 1) bitPosition = (2 ^ bitSize - 1) * 2 ^ (bitPosition mod 32)"
    and "0 \<le> shl (shl 1 bitSize - 1) bitPosition" and "shl (shl 1 bitSize - 1) bitPosition < 2 ^ 31"
proof -
  have s: "bitSize mod 32 = bitSize" using assms by simp
  have "(2 :: int) ^ bitSize \<le> 2 ^ 30" using assms(2) by (intro power_increasing) simp_all
  then have "wrap32 (2 ^ bitSize) = 2 ^ bitSize"
    by (intro wrap32_nonneg) simp_all
  then have one: "shl 1 bitSize = 2 ^ bitSize"
    by (simp add: shl_def s wrap32_id)
  have "(2 ^ bitSize - 1) * 2 ^ (bitPosition mod 32) < (2 :: int) ^ bitSize * 2 ^ (bitPosition mod 32)"
    by (intro mult_strict_right_mono) simp_all
  also have "\<dots> = 2 ^ (bitPosition mod 32 + bitSize)" by (simp add: power_add)
  also have "\<dots> \<le> 2 ^ 31" using assms(3) by (rule pow_le_31)
  finally have lt: "(2 ^ bitSize - 1) * 2 ^ (bitPosition mod 32) < (2 :: int) ^ 31" .
  have ge: "0 \<le> (2 ^ bitSize - 1) * (2 :: int) ^ (bitPosition mod 32)" by simp
  have m1: "wrap32 (2 ^ bitSize - 1) = 2 ^ bitSize - 1"
    using \<open>(2 :: int) ^ bitSize \<le> 2 ^ 30\<close> by (intro wrap32_nonneg) simp_all
  have "wrap32 ((2 ^ bitSize - 1) * 2 ^ (bitPosition mod 32)) =
          (2 ^ bitSize - 1) * 2 ^ (bitPosition mod 32)"
    using lt ge by (intro wrap32_nonneg) simp_all
  then show eq: "shl (shl 1 bitSize - 1) bitPosition = (2 ^ bitSize - 1) * 2 ^ (bitPosition mod 32)"
    by (simp add: one shl_def [of "2 ^ bitSize - 1"] m1)
  show "0 \<le> shl (shl 1 bitSize - 1) bitPosition" using ge by (simp add: eq)
  show "shl (shl 1 bitSize - 1) bitPosition < 2 ^ 31" using lt by (simp add: eq)
qed

lemma wrap32_signed: "wrap32 i = signed_take_bit 31 i"
  by (simp add: wrap32_def signed_take_bit_eq_take_bit_shift take_bit_eq_mod)

lemma bit_below_31:
  assumes "0 \<le> (m :: int)" "m < 2 ^ 31" "bit m i"
  shows "i < 31"
proof -
  have tb: "take_bit 31 m = m" using assms(1,2) by (rule take_bit_int_eq_self)
  have "bit (take_bit 31 m) i" by (subst tb) (rule assms(3))
  then show ?thesis by (simp only: bit_take_bit_iff)
qed

lemma wrap32_and_mask:
  assumes "0 \<le> (m :: int)" "m < 2 ^ 31"
  shows "wrap32 r AND m = r AND m"
proof (rule bit_eqI)
  fix i
  show "bit (wrap32 r AND m) i = bit (r AND m) i"
    using bit_below_31 [OF assms, of i]
    by (auto simp: wrap32_signed bit_and_iff bit_signed_take_bit_iff min_def)
qed

lemma flagValRev_eq:
  fixes X :: int
  assumes "0 < bitSize" "bitSize \<le> 30" "bitPosition mod 32 + bitSize \<le> 31"
  shows "sar (band X (shl (shl 1 bitSize - 1) bitPosition)) bitPosition =
           (wrap32 X AND (2 ^ bitSize - 1) * 2 ^ (bitPosition mod 32)) div 2 ^ (bitPosition mod 32)"
proof -
  let ?p = "bitPosition mod 32"
  let ?m = "(2 ^ bitSize - 1) * (2 :: int) ^ ?p"
  let ?Y = "wrap32 X AND ?m"
  have m: "shl (shl 1 bitSize - 1) bitPosition = ?m" by (rule field_mask(1) [OF assms(1-3)])
  have m0: "0 \<le> ?m" and m31: "?m < 2 ^ 31"
    using field_mask(2,3) [OF assms(1-3)] by (simp_all add: m)
  have Y0: "0 \<le> ?Y" using m0 by simp
  have Ym: "?Y \<le> ?m" using m0 by (rule AND_upper2)
  have wm: "wrap32 ?m = ?m" using m0 m31 by (intro wrap32_nonneg) simp_all
  have "wrap32 ?Y = ?Y" using Y0 Ym m31 by (intro wrap32_nonneg) simp_all
  then show ?thesis by (simp add: sar_def band_def m wm)
qed

lemma flagValRev_range:
  fixes X :: int
  assumes "0 < bitSize" "bitSize \<le> 30" "bitPosition mod 32 + bitSize \<le> 31"
  defines "w \<equiv> sar (band X (shl (shl 1 bitSize - 1) bitPosition)) bitPosition"
  shows "0 \<le> w" and "w < 2 ^ bitSize"
    and "0 \<le> wrap32 X \<Longrightarrow> w \<le> wrap32 X div 2 ^ (bitPosition mod 32)"
proof -
  let ?p = "bitPosition mod 32"
  let ?m = "(2 ^ bitSize - 1) * (2 :: int) ^ ?p"
  let ?Y = "wrap32 X AND ?m"
  have m0: "0 \<le> ?m" using field_mask(1,2) [OF assms(1-3)] by simp
  have Y0: "0 \<le> ?Y" using m0 by simp
  have Ym: "?Y \<le> ?m" using m0 by (rule AND_upper2)
  have wY: "w = ?Y div 2 ^ ?p" unfolding w_def by (rule flagValRev_eq [OF assms(1-3)])
  show "0 \<le> w" using Y0 by (simp add: wY pos_imp_zdiv_nonneg_iff)
  have "?Y div 2 ^ ?p \<le> ?m div 2 ^ ?p" using Ym by (intro zdiv_mono1) simp_all
  also have "\<dots> = 2 ^ bitSize - 1" by simp
  finally show "w < 2 ^ bitSize" by (simp add: wY)
  show "w \<le> wrap32 X div 2 ^ ?p" if "0 \<le> wrap32 X"
  proof -
    have "?Y \<le> wrap32 X" using that by (rule AND_upper1)
    then show ?thesis unfolding wY by (intro zdiv_mono1) simp_all
  qed
qed

lemma reverse_segment:
  assumes "0 \<le> w" "w < 2 ^ bitSize" "0 < bitSize" "bitSize \<le> 53"
  defines "v \<equiv> digitsValue 2 (rev (padStart (binDigits w) bitSize CHR ''0''))"
  shows "parseInt (rev (padStart (toString2 (Fin w)) bitSize CHR ''0'')) (Some 2) = Fin v"
    and "0 \<le> v" and "v < 2 ^ bitSize"
proof -
  let ?t = "padStart (binDigits w) bitSize CHR ''0''"
  have len: "length (binDigits w) \<le> bitSize" using assms(2,3) by (rule length_binDigits)
  have lt: "length ?t = bitSize" using len by (simp add: padStart_def)
  have bin: "\<forall>c \<in> set (rev ?t). isBin c"
    by (auto simp: padStart_def isBin_binDigits) (simp add: isBin_def)
  have ne: "rev ?t \<noteq> []" by (simp add: padStart_def)
  have b: "0 \<le> v \<and> v < 2 ^ length (rev ?t)"
    unfolding v_def using bin by (rule digitsValue_bin_bounds)
  then show "0 \<le> v" and v: "v < 2 ^ bitSize" by (simp_all add: lt)
  have "(2 :: int) ^ bitSize \<le> 2 ^ 53" using assms(4) by (intro power_increasing) simp_all
  with v b have ex: "toDouble v = Fin v" by (intro toDouble_exact) simp
  have "parseInt (rev ?t @ []) (Some 2) = toDouble v"
    unfolding v_def using ne bin by (intro parseInt_bin_prefix) simp_all
  then show "parseInt (rev (padStart (toString2 (Fin w)) bitSize CHR ''0'')) (Some 2) = Fin v"
    using assms(1) by (simp add: toString2_def ex)
qed

lemma flagValue_range:
  assumes "0 < bitSize" "bitSize \<le> 30" "bitPosition mod 32 + bitSize \<le> 31"
  shows "\<exists>n. flagValue x bitPosition bitSize = Fin n \<and> 0 \<le> n \<and> n < 2 ^ bitSize"
proof -
  let ?w = "sar (band (toInt32 x) (shl (shl 1 bitSize - 1) bitPosition)) bitPosition"
  have w: "0 \<le> ?w" "?w < 2 ^ bitSize" by (rule flagValRev_range [OF assms])+
  from reverse_segment [OF w assms(1)] assms(2) show ?thesis
    by (auto simp: flagValue_def Let_def)
qed

subsection \<open>The field that reaches the sign bit\<close>

text \<open>
  The field of the hub schemas at offset 28 with 7 bits has the mask \<^verbatim>\<open>127 << 28\<close>, which is
  \<open>- 2 ^ 28\<close> as a signed 32-bit integer: its segment is the arithmetic shift of the whole
  word and ranges over \<open>- 8 .. 7\<close>.
\<close>

lemma and_minus_exp: "(k :: int) AND - (2 ^ n) = (k div 2 ^ n) * 2 ^ n"
proof -
  have "k AND NOT (mask n) = push_bit n (drop_bit n k)"
    by (rule bit_eqI) (auto simp: bit_simps)
  then show ?thesis
    by (simp add: minus_exp_eq_not_mask push_bit_eq_mult drop_bit_eq_div)
qed

lemma shift_28_range:
  assumes "- (2 ^ 31) \<le> (k :: int)" "k < 2 ^ 31"
  shows "- 8 \<le> k div 2 ^ 28" and "k div 2 ^ 28 < 8"
proof -
  have "(- (2 ^ 31)) div 2 ^ 28 \<le> k div (2 ^ 28 :: int)"
    using assms(1) by (intro zdiv_mono1) simp_all
  then show "- 8 \<le> k div 2 ^ 28" by simp
  have "k \<le> 2 ^ 31 - 1" using assms(2) by simp
  then have "k div 2 ^ 28 \<le> (2 ^ 31 - 1) div (2 ^ 28 :: int)"
    by (intro zdiv_mono1) simp_all
  then show "k div 2 ^ 28 < 8" by simp
qed

lemma flagValRev_28_7_range:
  "- 8 \<le> wrap32 X div 2 ^ 28" "wrap32 X div 2 ^ 28 < 8"
proof -
  have r: "- (2 ^ 31) \<le> wrap32 X" "wrap32 X < 2 ^ 31"
    using wrap32_range [of X] by blast+
  show "- 8 \<le> wrap32 X div 2 ^ 28" by (rule shift_28_range(1) [OF r])
  show "wrap32 X div 2 ^ 28 < 8" by (rule shift_28_range(2) [OF r])
qed

lemma flagValRev_28_7: "sar (band X (shl (shl 1 7 - 1) 28)) 28 = wrap32 X div 2 ^ 28"
proof -
  have m: "shl (shl 1 7 - 1) 28 = - 268435456"
    by (simp add: shl_def wrap32_def)
  have wm: "wrap32 (- 268435456) = - 268435456"
    by (simp add: wrap32_def)
  let ?Y = "(wrap32 X div 2 ^ 28) * 2 ^ 28"
  have a: "wrap32 X AND - 268435456 = ?Y"
    using and_minus_exp [of "wrap32 X" 28] by simp
  have up: "?Y \<le> wrap32 X" by simp
  have "- 8 * 2 ^ 28 \<le> ?Y"
    using flagValRev_28_7_range(1) [of X] by (intro mult_right_mono) simp_all
  then have lo: "- (2 ^ 31) \<le> ?Y" by simp
  have "wrap32 X < 2 ^ 31" using wrap32_range [of X] by blast
  with up have "?Y < 2 ^ 31" by linarith
  with lo have "wrap32 ?Y = ?Y" by (rule wrap32_id)
  then have "wrap32 (wrap32 X AND - 268435456) div 2 ^ 28 = wrap32 X div 2 ^ 28"
    unfolding a by simp
  then show ?thesis
    by (simp add: sar_def band_def m wm)
qed

lemma negative_segments:
  "parseInt (rev (padStart (toString2 (Fin (- 8))) 7 CHR ''0'')) (Some 2) = Fin 1"
  "parseInt (rev (padStart (toString2 (Fin (- 7))) 7 CHR ''0'')) (Some 2) = Fin 7"
  "parseInt (rev (padStart (toString2 (Fin (- 6))) 7 CHR ''0'')) (Some 2) = Fin 3"
  "parseInt (rev (padStart (toString2 (Fin (- 5))) 7 CHR ''0'')) (Some 2) = Fin 5"
  "parseInt (rev (padStart (toString2 (Fin (- 4))) 7 CHR ''0'')) (Some 2) = Fin 1"
  "parseInt (rev (padStart (toString2 (Fin (- 3))) 7 CHR ''0'')) (Some 2) = Fin 3"
  "parseInt (rev (padStart (toString2 (Fin (- 2))) 7 CHR ''0'')) (Some 2) = Fin 1"
  "parseInt (rev (padStart (toString2 (Fin (- 1))) 7 CHR ''0'')) (Some 2) = Fin 1"
  by code_simp+

lemma reverse_negative_segment:
  "w \<in> {- 8, - 7, - 6, - 5, - 4, - 3, - 2, - 1} \<Longrightarrow>
     \<exists>n. parseInt (rev (padStart (toString2 (Fin w)) 7 CHR ''0'')) (Some 2) = Fin n \<and> 0 \<le> n \<and> n < 2 ^ 7"
  by (elim insertE emptyE) (simp_all only: negative_segments, simp_all)

lemma flagValue_range_28_7: "\<exists>n. flagValue x 28 7 = Fin n \<and> 0 \<le> n \<and> n < 2 ^ 7"
proof -
  let ?w = "wrap32 (toInt32 x) div 2 ^ 28"
  have fv: "flagValue x 28 7 = parseInt (rev (padStart (toString2 (Fin ?w)) 7 CHR ''0'')) (Some 2)"
    by (simp add: flagValue_def Let_def flagValRev_28_7)
  show ?thesis
  proof (cases "0 \<le> ?w")
    case True
    have "?w < 2 ^ 7" using flagValRev_28_7_range(2) [of "toInt32 x"] by simp
    from reverse_segment [OF True this] show ?thesis unfolding fv by auto
  next
    case False
    with flagValRev_28_7_range(1) [of "toInt32 x"]
    have "?w \<in> {- 8, - 7, - 6, - 5, - 4, - 3, - 2, - 1}" by auto
    from reverse_negative_segment [OF this] show ?thesis unfolding fv .
  qed
qed

section \<open>The decoder on every payload\<close>

lemma update_new_key: "k \<notin> fst ` set al \<Longrightarrow> AList.update k v al = al @ [(k, v)]"
  by (induction al) auto

lemma fold_update_distinct:
  assumes "distinct (map fst flags)" and "fst ` set acc \<inter> fst ` set flags = {}"
  shows "fold (\<lambda>(flag, bitPosition, bitSize) flagValues.
                 AList.update flag (g bitPosition bitSize) flagValues) flags acc =
         acc @ map (\<lambda>(flag, bitPosition, bitSize). (flag, g bitPosition bitSize)) flags"
  using assms
proof (induction flags arbitrary: acc)
  case Nil
  then show ?case by simp
next
  case (Cons f flags)
  obtain flag bitPosition bitSize where f: "f = (flag, bitPosition, bitSize)"
    by (cases f) auto
  from Cons.prems(2) have new: "flag \<notin> fst ` set acc" by (auto simp: f)
  have d: "distinct (map fst flags)" using Cons.prems(1) by simp
  have "fst ` set (acc @ [(flag, g bitPosition bitSize)]) \<inter> fst ` set flags = {}"
    using Cons.prems by (auto simp: f)
  from Cons.IH [OF d this] show ?case
    by (simp add: f update_new_key [OF new])
qed

lemma decodeHexToFlags_map:
  assumes "lookup2 FLAGS_MAPPING devType version = Some flags" and "distinct (map fst flags)"
  shows "decodeHexToFlags hexValue version devType =
           Inr (map (\<lambda>(flag, bitPosition, bitSize).
                       (flag, flagValue (reverseHex hexValue) bitPosition bitSize)) flags)"
  using fold_update_distinct [OF assms(2), of "[]" "flagValue (reverseHex hexValue)"]
  by (simp add: decodeHexToFlags_def assms(1) Let_def)

lemma registered_flags:
  "lookup2 FLAGS_MAPPING devType version = Some flags \<Longrightarrow>
     flags = FLAGS_CAM_V2 \<or> flags = FLAGS_HUB_V0 \<or> flags = FLAGS_HUB_V1 \<or> flags = FLAGS_HUB_V2"
  by (auto simp: lookup2_def FLAGS_MAPPING_def split: if_splits jsnum.splits)

lemma tables_distinct:
  "distinct (map fst FLAGS_CAM_V2)" "distinct (map fst FLAGS_HUB_V0)"
  "distinct (map fst FLAGS_HUB_V1)" "distinct (map fst FLAGS_HUB_V2)"
  by (simp_all add: FLAGS_CAM_V2_def FLAGS_HUB_V0_def FLAGS_HUB_V1_def FLAGS_HUB_V2_def)

lemma tables_fields:
  assumes "flags = FLAGS_CAM_V2 \<or> flags = FLAGS_HUB_V0 \<or> flags = FLAGS_HUB_V1 \<or> flags = FLAGS_HUB_V2"
    and "(flag, bitPosition, bitSize) \<in> set flags"
  shows "fieldFits bitPosition bitSize \<or> (bitPosition = 28 \<and> bitSize = 7)"
  using assms
  by (auto simp: FLAGS_CAM_V2_def FLAGS_HUB_V0_def FLAGS_HUB_V1_def FLAGS_HUB_V2_def fieldFits_def)

lemma registered_distinct:
  "lookup2 FLAGS_MAPPING devType version = Some flags \<Longrightarrow> distinct (map fst flags)"
  using registered_flags [of devType version flags] tables_distinct by auto

lemma flagValue_registered:
  assumes "lookup2 FLAGS_MAPPING devType version = Some flags"
    and "(flag, bitPosition, bitSize) \<in> set flags"
  shows "\<exists>n. flagValue x bitPosition bitSize = Fin n \<and> 0 \<le> n \<and> n < 2 ^ bitSize"
proof -
  from tables_fields [OF registered_flags [OF assms(1)] assms(2)]
  show ?thesis
  proof
    assume "fieldFits bitPosition bitSize"
    then show ?thesis by (auto simp: fieldFits_def intro: flagValue_range)
  next
    assume "bitPosition = 28 \<and> bitSize = 7"
    then show ?thesis using flagValue_range_28_7 [of x] by simp
  qed
qed


text \<open>
  Claim C6. For every payload string and every schema of the registry, the decoder returns
  flags whose names are exactly the names of the schema, in the order of the schema, and the
  value of each flag is a number \<open>n\<close> with \<open>0 \<le> n < 2 ^ bitSize\<close>.
\<close>

theorem decoded_fields_in_range:
  assumes "lookup2 FLAGS_MAPPING devType version = Some flags"
  shows "\<exists>flagValues.
           decodeHexToFlags hexValue version devType = Inr flagValues \<and>
           map fst flagValues = map fst flags \<and>
           (\<forall>(flag, bitPosition, bitSize) \<in> set flags.
              \<exists>n. map_of flagValues flag = Some (Fin n) \<and> 0 \<le> n \<and> n < 2 ^ bitSize)"
proof -
  let ?fv = "map (\<lambda>(flag, bitPosition, bitSize).
                    (flag, flagValue (reverseHex hexValue) bitPosition bitSize)) flags"
  have d: "distinct (map fst flags)" by (rule registered_distinct [OF assms])
  have dec: "decodeHexToFlags hexValue version devType = Inr ?fv"
    by (rule decodeHexToFlags_map [OF assms d])
  have keys: "map fst ?fv = map fst flags" by (simp add: comp_def split_beta)
  have vals: "\<exists>n. map_of ?fv flag = Some (Fin n) \<and> 0 \<le> n \<and> n < 2 ^ bitSize"
    if m: "(flag, bitPosition, bitSize) \<in> set flags" for flag bitPosition bitSize
  proof -
    have "(flag, flagValue (reverseHex hexValue) bitPosition bitSize) \<in> set ?fv"
      using m by force
    moreover have "distinct (map fst ?fv)" unfolding keys by (rule d)
    ultimately have "map_of ?fv flag = Some (flagValue (reverseHex hexValue) bitPosition bitSize)"
      by (intro map_of_is_SomeI)
    with flagValue_registered [OF assms m, of "reverseHex hexValue"] show ?thesis by auto
  qed
  from dec keys vals show ?thesis by blast
qed

theorem decoded_fields_in_range_witness:
  "lookup2 FLAGS_MAPPING ''hub'' (Fin 2) = Some FLAGS_HUB_V2 \<and>
   (\<exists>flagValues.
      decodeHexToFlags ''not hex at all'' (Fin 2) ''hub'' = Inr flagValues \<and>
      map fst flagValues = map fst FLAGS_HUB_V2 \<and>
      (\<exists>n. map_of flagValues ''picture_layout_index'' = Some (Fin n) \<and> 0 \<le> n \<and> n < 2 ^ 7))"
proof -
  have l: "lookup2 FLAGS_MAPPING ''hub'' (Fin 2) = Some FLAGS_HUB_V2"
    by (simp add: lookup2_def FLAGS_MAPPING_def)
  have m: "(''picture_layout_index'', 28, 7) \<in> set FLAGS_HUB_V2"
    by (simp add: FLAGS_HUB_V2_def)
  from decoded_fields_in_range [OF l, of "''not hex at all''"] m l show ?thesis by blast
qed

section \<open>Payloads shorter than the schema\<close>

lemma digitsValue_hex_bounds:
  "\<forall>c \<in> set u. isRadixDigit 16 c \<Longrightarrow> 0 \<le> digitsValue 16 u \<and> digitsValue 16 u < 16 ^ length u"
proof (induction u rule: rev_induct)
  case Nil
  then show ?case by simp
next
  case (snoc c u)
  then have ih: "0 \<le> digitsValue 16 u" "digitsValue 16 u < 16 ^ length u" by simp_all
  from snoc.prems have "isRadixDigit 16 c" by simp
  then have d: "0 \<le> the (digitValue c)" "the (digitValue c) < 16"
    by (auto simp: isRadixDigit_def digitValue_def Let_def split: option.splits if_splits)
  from ih(2) have "digitsValue 16 u + 1 \<le> 16 ^ length u" by simp
  then have "(digitsValue 16 u + 1) * 16 \<le> 16 ^ length u * 16" by (intro mult_right_mono) simp_all
  with ih(1) d show ?case by (simp add: algebra_simps)
qed

lemma parseInt_16_cases:
  "parseInt h (Some 16) = NaN \<or>
   (\<exists>v. parseInt h (Some 16) = toDouble v \<and> 0 \<le> v \<and> v < 16 ^ length h) \<or>
   (\<exists>v. parseInt h (Some 16) = toDouble (- v) \<and> 0 \<le> v \<and> 0 < length h \<and> v < 16 ^ (length h - 1))"
proof -
  define S where "S = dropWhile isWhiteSpace h"
  define S1 where "S1 = (if S \<noteq> [] \<and> (hd S = CHR ''+'' \<or> hd S = CHR ''-'') then tl S else S)"
  define S2 where "S2 = (if take 2 S1 = ''0x'' \<or> take 2 S1 = ''0X'' then drop 2 S1 else S1)"
  define Z where "Z = takeWhile (isRadixDigit 16) S2"
  define sign :: int where "sign = (if S \<noteq> [] \<and> hd S = CHR ''-'' then - 1 else 1)"
  have p: "parseInt h (Some 16) = (if Z = [] then NaN else toDouble (sign * digitsValue 16 Z))"
    by (simp add: parseInt_def Let_def S_def S1_def S2_def Z_def sign_def)
  have lS: "length S \<le> length h" unfolding S_def by (rule length_dropWhile_le)
  have lZ: "length Z \<le> length S1"
  proof -
    have "length Z \<le> length S2" unfolding Z_def by (rule length_takeWhile_le)
    also have "\<dots> \<le> length S1" by (simp add: S2_def)
    finally show ?thesis .
  qed
  have hex: "\<forall>c \<in> set Z. isRadixDigit 16 c"
    unfolding Z_def by (auto dest: set_takeWhileD)
  from digitsValue_hex_bounds [OF hex]
  have v0: "0 \<le> digitsValue 16 Z" and vZ: "digitsValue 16 Z < 16 ^ length Z" by simp_all
  show ?thesis
  proof (cases "Z = []")
    case True
    then show ?thesis by (simp add: p)
  next
    case False
    show ?thesis
    proof (cases "S \<noteq> [] \<and> hd S = CHR ''-''")
      case True
      then have "length S1 = length S - 1" by (simp add: S1_def)
      with lZ lS have l: "length Z \<le> length h - 1" by simp
      from True lS have h0: "0 < length h" by (cases S) auto
      have "(16 :: int) ^ length Z \<le> 16 ^ (length h - 1)"
        using l by (intro power_increasing) simp_all
      with vZ have "digitsValue 16 Z < 16 ^ (length h - 1)" by (rule less_le_trans)
      moreover have "parseInt h (Some 16) = toDouble (- digitsValue 16 Z)"
        using True False by (simp add: p sign_def)
      ultimately show ?thesis using v0 h0 by blast
    next
      case pos: False
      have "length S1 \<le> length S" by (simp add: S1_def)
      with lZ lS have l: "length Z \<le> length h" by simp
      have "(16 :: int) ^ length Z \<le> 16 ^ length h"
        using l by (intro power_increasing) simp_all
      with vZ have "digitsValue 16 Z < 16 ^ length h" by (rule less_le_trans)
      moreover have "parseInt h (Some 16) = toDouble (digitsValue 16 Z)"
        using pos False by (auto simp add: p sign_def)
      ultimately show ?thesis using v0 by blast
    qed
  qed
qed

lemma reverse_NaN: "parseInt (rev (padStart (toString2 NaN) n CHR ''0'')) (Some 2) = NaN"
  by (simp add: toString2_def padStart_def parseInt_def isWhiteSpace_def isRadixDigit_def
      digitValue_def Let_def)

lemma reverse_payload_nonneg:
  assumes "0 \<le> v" "v < 2 ^ n" "n \<le> 53"
  shows "\<exists>r. parseInt (rev (padStart (toString2 (Fin v)) n CHR ''0'')) (Some 2) = Fin r \<and>
             0 \<le> r \<and> r < 2 ^ n"
proof (cases "n = 0")
  case True
  with assms have "v = 0" by simp
  moreover have "parseInt (rev (padStart (toString2 (Fin 0)) 0 CHR ''0'')) (Some 2) = Fin 0"
    by code_simp
  ultimately show ?thesis using True by simp
next
  case False
  then have "0 < n" by simp
  from reverse_segment [OF assms(1,2) this assms(3)] show ?thesis by blast
qed

lemma reverse_payload_negative:
  assumes "0 < v" "v < 2 ^ k" "k < n" "n \<le> 53"
  shows "\<exists>r. parseInt (rev (padStart (toString2 (Fin (- v))) n CHR ''0'')) (Some 2) = Fin r \<and>
             0 \<le> r \<and> r < 2 ^ n"
proof -
  let ?d = "binDigits v"
  have k: "0 < k" using assms(1,2) by (cases k) auto
  have len: "length ?d \<le> k" using assms(2) k by (rule length_binDigits)
  have ts: "toString2 (Fin (- v)) = CHR ''-'' # ?d" using assms(1) by (simp add: toString2_def)
  have r: "rev (padStart (CHR ''-'' # ?d) n CHR ''0'') =
             rev ?d @ (CHR ''-'' # replicate (n - Suc (length ?d)) CHR ''0'')"
    by (simp add: padStart_def)
  have bin: "\<forall>c \<in> set (rev ?d). isBin c" by (simp add: isBin_binDigits)
  have "parseInt (rev ?d @ (CHR ''-'' # replicate (n - Suc (length ?d)) CHR ''0'')) (Some 2) =
          toDouble (digitsValue 2 (rev ?d))"
    using bin by (intro parseInt_bin_prefix) (simp_all add: isRadixDigit_def digitValue_def)
  moreover from digitsValue_bin_bounds [OF bin]
  have b: "0 \<le> digitsValue 2 (rev ?d)" "digitsValue 2 (rev ?d) < 2 ^ length ?d" by simp_all
  have "(2 :: int) ^ length ?d \<le> 2 ^ n" using len assms(3) by (intro power_increasing) simp_all
  with b(2) have lt: "digitsValue 2 (rev ?d) < 2 ^ n" by (rule less_le_trans)
  have "(2 :: int) ^ n \<le> 2 ^ 53" using assms(4) by (intro power_increasing) simp_all
  with lt have "digitsValue 2 (rev ?d) < 2 ^ 53" by (rule less_le_trans)
  with b(1) have "toDouble (digitsValue 2 (rev ?d)) = Fin (digitsValue 2 (rev ?d))"
    by (intro toDouble_exact) simp
  ultimately show ?thesis using b(1) lt by (simp add: ts r)
qed

lemma pow16: "(16 :: int) ^ n = 2 ^ (4 * n)"
  by (simp add: power_mult)

lemma reverseHex_range:
  assumes "length hexValue \<le> 13"
  shows "reverseHex hexValue = NaN \<or>
         (\<exists>r. reverseHex hexValue = Fin r \<and> 0 \<le> r \<and> r < 2 ^ (4 * length hexValue))"
proof -
  let ?n = "4 * length hexValue"
  have n: "?n \<le> 53" using assms by simp
  have small: "toDouble v = Fin v" if "0 \<le> v" "v < 2 ^ ?n" for v
  proof -
    have "(2 :: int) ^ ?n \<le> 2 ^ 53" using n by (intro power_increasing) simp_all
    with that(2) have "v < 2 ^ 53" by (rule less_le_trans)
    with that(1) show ?thesis by (intro toDouble_exact) simp
  qed
  have smalln: "toDouble (- v) = Fin (- v)" if "0 \<le> v" "v < 2 ^ ?n" for v
  proof -
    have "(2 :: int) ^ ?n \<le> 2 ^ 53" using n by (intro power_increasing) simp_all
    with that(2) have "v < 2 ^ 53" by (rule less_le_trans)
    with that(1) show ?thesis by (intro toDouble_exact) simp
  qed
  from parseInt_16_cases [of hexValue] show ?thesis
  proof (elim disjE exE conjE)
    assume "parseInt hexValue (Some 16) = NaN"
    then show ?thesis by (simp add: reverseHex_def reverse_NaN)
  next
    fix v assume p: "parseInt hexValue (Some 16) = toDouble v" and v: "0 \<le> v" "v < 16 ^ length hexValue"
    from v(2) have v2: "v < 2 ^ ?n" by (simp add: pow16)
    from reverse_payload_nonneg [OF v(1) v2 n] show ?thesis
      by (simp add: reverseHex_def p small [OF v(1) v2] mult.commute)
  next
    fix v assume p: "parseInt hexValue (Some 16) = toDouble (- v)" and v: "0 \<le> v" "0 < length hexValue"
      "v < 16 ^ (length hexValue - 1)"
    from v(3) have vk: "v < 2 ^ (4 * (length hexValue - 1))" by (simp add: pow16)
    have kn: "4 * (length hexValue - 1) < ?n" using v(2) by simp
    have "(2 :: int) ^ (4 * (length hexValue - 1)) \<le> 2 ^ ?n"
      using kn by (intro power_increasing) simp_all
    with vk have v2: "v < 2 ^ ?n" by (rule less_le_trans)
    show ?thesis
    proof (cases "v = 0")
      case True
      have "(0 :: int) < 2 ^ ?n" by simp
      from reverse_payload_nonneg [OF _ this n] show ?thesis
        by (simp add: reverseHex_def p True toDouble_exact mult.commute)
    next
      case False
      with v(1) have "0 < v" by simp
      from reverse_payload_negative [OF this vk kn n] show ?thesis
        by (simp add: reverseHex_def p smalln [OF v(1) v2] mult.commute)
    qed
  qed
qed

lemma div_pow_less:
  assumes "(r :: int) < 2 ^ n" "p \<le> n"
  shows "r div 2 ^ p < 2 ^ (n - p)"
proof (rule ccontr)
  assume "\<not> r div 2 ^ p < 2 ^ (n - p)"
  then have "2 ^ (n - p) \<le> r div 2 ^ p" by simp
  then have "2 ^ (n - p) * 2 ^ p \<le> (r div 2 ^ p) * 2 ^ p" by (intro mult_right_mono) simp_all
  also have "\<dots> \<le> r"
  proof -
    have "(r div 2 ^ p) * 2 ^ p = r - r mod 2 ^ p" by (simp add: minus_mod_eq_div_mult)
    moreover have "0 \<le> r mod 2 ^ p" by simp
    ultimately show ?thesis by linarith
  qed
  finally have "2 ^ (n - p + p) \<le> r" by (simp add: power_add)
  with assms show False by simp
qed

lemma reverse_zero_segment:
  "0 < bitSize \<Longrightarrow> digitsValue 2 (rev (padStart (binDigits 0) bitSize CHR ''0'')) = 0"
proof -
  assume "0 < bitSize"
  then have "padStart (binDigits 0) bitSize CHR ''0'' = replicate bitSize CHR ''0''"
    by (cases bitSize) (simp_all add: binDigits.simps padStart_def replicate_append_same)
  then show ?thesis by simp
qed

lemma reverse_low_zeros:
  assumes "0 < w" "w < 2 ^ k" "k \<le> bitSize"
  shows "2 ^ (bitSize - k) dvd digitsValue 2 (rev (padStart (binDigits w) bitSize CHR ''0''))"
proof -
  let ?d = "binDigits w"
  have k: "0 < k" using assms(1,2) by (cases k) auto
  have len: "length ?d \<le> k" using assms(2) k by (rule length_binDigits)
  have "digitsValue 2 (rev (padStart ?d bitSize CHR ''0'')) =
          digitsValue 2 (rev ?d) * 2 ^ (bitSize - length ?d)"
    by (simp add: padStart_def digitsValue_append)
  moreover have "(2 :: int) ^ (bitSize - k) dvd 2 ^ (bitSize - length ?d)"
    using len by (intro le_imp_power_dvd) simp
  ultimately show ?thesis by simp
qed

lemma flagValue_short:
  assumes x: "x = NaN \<or> (\<exists>r. x = Fin r \<and> 0 \<le> r \<and> r < 2 ^ n)"
    and fit: "0 < bitSize" "bitSize \<le> 30" "bitPosition + bitSize \<le> 31"
    and short: "n < bitPosition + bitSize"
  shows "\<exists>v. flagValue x bitPosition bitSize = Fin v \<and> 0 \<le> v \<and>
             2 ^ (bitPosition + bitSize - max bitPosition n) dvd v \<and>
             (n \<le> bitPosition \<longrightarrow> v = 0)"
proof -
  have p: "bitPosition mod 32 = bitPosition" using fit by simp
  have fit': "bitPosition mod 32 + bitSize \<le> 31" using fit by (simp add: p)
  define X where "X = toInt32 x"
  have n31: "(2 :: int) ^ n \<le> 2 ^ 31" using short fit(3) by (intro power_increasing) simp_all
  have X: "0 \<le> wrap32 X \<and> wrap32 X < 2 ^ n"
    using x
  proof
    assume "x = NaN"
    then show ?thesis by (simp add: X_def toInt32_def wrap32_def)
  next
    assume "\<exists>r. x = Fin r \<and> 0 \<le> r \<and> r < 2 ^ n"
    then obtain r where r: "x = Fin r" "0 \<le> r" "r < 2 ^ n" by blast
    from r(3) n31 have "r < 2 ^ 31" by (rule less_le_trans)
    with r(2) have "wrap32 r = r" by (rule wrap32_nonneg)
    with r show ?thesis by (simp add: X_def toInt32_def)
  qed
  define w where "w = sar (band X (shl (shl 1 bitSize - 1) bitPosition)) bitPosition"
  have w0: "0 \<le> w" and wb: "w < 2 ^ bitSize"
    unfolding w_def by (rule flagValRev_range [OF fit(1,2) fit'])+
  have wX: "w \<le> wrap32 X div 2 ^ bitPosition"
    using flagValRev_range(3) [OF fit(1,2) fit', of X] X by (simp add: w_def p)
  define k where "k = n - bitPosition"
  have wk: "w < 2 ^ k"
  proof (cases "bitPosition \<le> n")
    case True
    from X have "wrap32 X div 2 ^ bitPosition < 2 ^ (n - bitPosition)"
      using True by (intro div_pow_less) simp_all
    with wX show ?thesis by (simp add: k_def)
  next
    case False
    then have "(2 :: int) ^ n \<le> 2 ^ bitPosition" by (intro power_increasing) simp_all
    moreover from X have "wrap32 X < 2 ^ n" by simp
    ultimately have "wrap32 X < 2 ^ bitPosition" by (rule less_le_trans [rotated])
    with X have "wrap32 X div 2 ^ bitPosition = 0" by (intro div_pos_pos_trivial) simp_all
    with wX have "w \<le> 0" by simp
    moreover have "(0 :: int) < 2 ^ k" by simp
    ultimately show ?thesis by linarith
  qed
  have kb: "k \<le> bitSize" using short by (simp add: k_def)
  define v where "v = digitsValue 2 (rev (padStart (binDigits w) bitSize CHR ''0''))"
  have fv: "flagValue x bitPosition bitSize = Fin v" and v0: "0 \<le> v"
    using reverse_segment [OF w0 wb fit(1)] fit(2)
    by (simp_all add: flagValue_def Let_def w_def X_def v_def)
  show ?thesis
  proof (cases "w = 0")
    case True
    then have "v = 0" using fit(1) by (simp add: v_def reverse_zero_segment)
    with fv show ?thesis by simp
  next
    case False
    with w0 have wpos: "0 < w" by simp
    with wk have "0 < k" by (cases k) auto
    then have n: "bitPosition < n" by (simp add: k_def)
    then have e: "bitPosition + bitSize - max bitPosition n = bitSize - k"
      by (simp add: k_def max_def)
    from reverse_low_zeros [OF wpos wk kb] have "2 ^ (bitSize - k) dvd v" by (simp add: v_def)
    with fv v0 n e show ?thesis by simp
  qed
qed

lemma decodedFlag_registered:
  assumes "lookup2 FLAGS_MAPPING devType version = Some flags"
    and "(flag, bitPosition, bitSize) \<in> set flags"
  shows "decodedFlag hexValue version devType flag =
           Some (flagValue (reverseHex hexValue) bitPosition bitSize)"
proof -
  let ?fv = "map (\<lambda>(flag, bitPosition, bitSize).
                    (flag, flagValue (reverseHex hexValue) bitPosition bitSize)) flags"
  have d: "distinct (map fst flags)" by (rule registered_distinct [OF assms(1)])
  have keys: "map fst ?fv = map fst flags" by (simp add: comp_def split_beta)
  have "(flag, flagValue (reverseHex hexValue) bitPosition bitSize) \<in> set ?fv"
    using assms(2) by force
  moreover have "distinct (map fst ?fv)" unfolding keys by (rule d)
  ultimately have "map_of ?fv flag = Some (flagValue (reverseHex hexValue) bitPosition bitSize)"
    by (intro map_of_is_SomeI)
  then show ?thesis
    by (simp add: decodedFlag_def decodeHexToFlags_map [OF assms(1) d])
qed

lemma parseFileName_accepted:
  assumes "snd (parseFileName fileName) \<noteq> Inr None"
  shows "\<exists>devType version hexValue flagValues fallback.
           decodeHexToFlags hexValue version devType = Inr flagValues \<and>
           parseFileName fileName =
             (fallback @ checkLength fileName devType version hexValue @
                [LogFlags hexValue version devType flagValues],
              Inr (Some (detectionClasses flagValues)))"
proof -
  let ?toks = "nameTokens fileName"
  define devType where "devType = (if length ?toks = 6 then ''cam'' else ''hub'')"
  define hexValue where "hexValue = ?toks ! (if length ?toks = 6 then 4 else 7)"
  define rv where "rv = resolveVersion fileName devType (parseInt [hd ?toks ! 5] None) hexValue"
  have dt: "devType = ''cam'' \<or> devType = ''hub''" by (simp add: devType_def)
  have "hasVersion devType (fst rv)" unfolding rv_def by (rule hasVersion_resolveVersion [OF dt])
  then obtain flagValues where fv: "decodeHexToFlags hexValue (fst rv) devType = Inr flagValues"
    using decodeHexToFlags_total by blast
  have "parseFileName fileName =
          (snd rv @ checkLength fileName devType (fst rv) hexValue @
             [LogFlags hexValue (fst rv) devType flagValues],
           Inr (Some (detectionClasses flagValues)))"
    using assms fv
    by (simp add: parseFileName_cases [of fileName] Let_def devType_def [symmetric]
        hexValue_def [symmetric] rv_def [symmetric] split: if_splits)
  with fv show ?thesis by blast
qed


text \<open>
  Claim C9, amended. The decoder is total: for every payload string, whatever its length and
  content, and every schema of the registry it returns flags and throws nothing;
  \<^verbatim>\<open>parseFileName\<close> returns \<^verbatim>\<open>null\<close> or the detection classes of the flags the decoder returned,
  and the test of the payload length contributes nothing but its message to the console. For a
  field that ends at or below bit 31 and reaches past the \<open>4 * len\<close> bits of the payload, the
  bits past the payload read as zero; the per-field reversal makes them the low-order bits of
  the decoded value, which is therefore a multiple of 2 to the number of missing bits, and 0
  when the whole field lies past the payload.
\<close>

theorem decoder_total:
  assumes "lookup2 FLAGS_MAPPING devType version = Some flags"
  shows "(\<exists>flagValues. decodeHexToFlags hexValue version devType = Inr flagValues) \<and>
         (snd (parseFileName fileName) = Inr None \<or>
            (\<exists>devType' version' hexValue' flagValues fallback.
               decodeHexToFlags hexValue' version' devType' = Inr flagValues \<and>
               parseFileName fileName =
                 (fallback @ checkLength fileName devType' version' hexValue' @
                    [LogFlags hexValue' version' devType' flagValues],
                  Inr (Some (detectionClasses flagValues))))) \<and>
         (\<forall>(flag, bitPosition, bitSize) \<in> set flags.
            bitPosition + bitSize \<le> 31 \<and> 4 * length hexValue < bitPosition + bitSize \<longrightarrow>
            (\<exists>v. decodedFlag hexValue version devType flag = Some (Fin v) \<and> 0 \<le> v \<and>
                 2 ^ (bitPosition + bitSize - max bitPosition (4 * length hexValue)) dvd v \<and>
                 (4 * length hexValue \<le> bitPosition \<longrightarrow> v = 0)))"
proof -
  have total: "\<exists>flagValues. decodeHexToFlags hexValue version devType = Inr flagValues"
    using assms by (intro decodeHexToFlags_total) (simp add: hasVersion_def)
  have nothrow: "snd (parseFileName fileName) = Inr None \<or>
            (\<exists>devType' version' hexValue' flagValues fallback.
               decodeHexToFlags hexValue' version' devType' = Inr flagValues \<and>
               parseFileName fileName =
                 (fallback @ checkLength fileName devType' version' hexValue' @
                    [LogFlags hexValue' version' devType' flagValues],
                  Inr (Some (detectionClasses flagValues))))"
    using parseFileName_accepted [of fileName] by blast
  have short: "\<exists>v. decodedFlag hexValue version devType flag = Some (Fin v) \<and> 0 \<le> v \<and>
                 2 ^ (bitPosition + bitSize - max bitPosition (4 * length hexValue)) dvd v \<and>
                 (4 * length hexValue \<le> bitPosition \<longrightarrow> v = 0)"
    if m: "(flag, bitPosition, bitSize) \<in> set flags"
      and b: "bitPosition + bitSize \<le> 31" "4 * length hexValue < bitPosition + bitSize"
    for flag bitPosition bitSize
  proof -
    from tables_fields [OF registered_flags [OF assms] m] b(1)
    have fit: "0 < bitSize" "bitSize \<le> 30" by (auto simp: fieldFits_def)
    have "length hexValue \<le> 13" using b by simp
    from flagValue_short [OF reverseHex_range [OF this] fit b]
    show ?thesis by (simp add: decodedFlag_registered [OF assms m])
  qed
  from total nothrow short show ?thesis by blast
qed


lemma parse_short_payload:
  "parseFileName ''RecM02_20201222_075939_080140_F_1A468F9.mp4'' =
     ([DebugUnexpectedLength ''RecM02_20201222_075939_080140_F_1A468F9.mp4'' (Fin 2) 1 7,
       LogFlags ''F'' (Fin 2) ''cam''
         [(''resolution_index'', Fin 120), (''tv_system'', Fin 0), (''framerate'', Fin 0),
          (''audio_index'', Fin 0), (''ai_pd'', Fin 0), (''ai_fd'', Fin 0), (''ai_vd'', Fin 0),
          (''ai_ad'', Fin 0), (''encoder_type_index'', Fin 0), (''is_schedule_record'', Fin 0),
          (''is_motion_record'', Fin 0), (''is_rf_record'', Fin 0),
          (''is_doorbell_record'', Fin 0), (''ai_other'', Fin 0)]],
      Inr (Some [''motion'']))"
  by code_simp

theorem decoder_total_witness:
  "lookup2 FLAGS_MAPPING ''cam'' (Fin 2) = Some FLAGS_CAM_V2 \<and>
   (''resolution_index'', 0, 7) \<in> set FLAGS_CAM_V2 \<and> (''ai_pd'', 17, 1) \<in> set FLAGS_CAM_V2 \<and>
   4 * length ''F'' < (0 :: nat) + 7 \<and>
   (\<exists>flagValues. decodeHexToFlags ''F'' (Fin 2) ''cam'' = Inr flagValues) \<and>
   (\<exists>v. decodedFlag ''F'' (Fin 2) ''cam'' ''resolution_index'' = Some (Fin v) \<and> 2 ^ 3 dvd v) \<and>
   decodedFlag ''F'' (Fin 2) ''cam'' ''ai_pd'' = Some (Fin 0) \<and>
   fst (parseFileName ''RecM02_20201222_075939_080140_F_1A468F9.mp4'') ! 0 =
     DebugUnexpectedLength ''RecM02_20201222_075939_080140_F_1A468F9.mp4'' (Fin 2) 1 7 \<and>
   snd (parseFileName ''RecM02_20201222_075939_080140_F_1A468F9.mp4'') = Inr (Some [''motion''])"
proof -
  have l: "lookup2 FLAGS_MAPPING ''cam'' (Fin 2) = Some FLAGS_CAM_V2"
    by (simp add: lookup2_def FLAGS_MAPPING_def)
  have m: "(''resolution_index'', 0, 7) \<in> set FLAGS_CAM_V2" "(''ai_pd'', 17, 1) \<in> set FLAGS_CAM_V2"
    by (simp_all add: FLAGS_CAM_V2_def)
  have p: "fst (parseFileName ''RecM02_20201222_075939_080140_F_1A468F9.mp4'') ! 0 =
     DebugUnexpectedLength ''RecM02_20201222_075939_080140_F_1A468F9.mp4'' (Fin 2) 1 7"
    "snd (parseFileName ''RecM02_20201222_075939_080140_F_1A468F9.mp4'') = Inr (Some [''motion''])"
    by (simp_all add: parse_short_payload)
  from decoder_total [OF l, of "''F''" "''RecM02_20201222_075939_080140_F_1A468F9.mp4''"] m l p
  show ?thesis by fastforce
qed

section \<open>Where the decoder agrees with the specification\<close>

text \<open>
  On a payload of 1 to 13 hexadecimal digits nothing is rounded, and a field that ends at or
  below bit 31 is not touched by the truncation to 32 bits: there the decoder returns what
  section 4.2 of the specification computes. This covers every field of the camera schema and
  the fields of the hub schemas below bit 28.
\<close>

lemma hex_digit_plain:
  assumes "isRadixDigit 16 c"
  shows "\<not> isWhiteSpace c" "c \<noteq> CHR ''-''" "c \<noteq> CHR ''+''" "c \<noteq> CHR ''x''" "c \<noteq> CHR ''X''"
  using assms
  by (auto simp: isRadixDigit_def digitValue_def isWhiteSpace_def Let_def split: if_splits)

lemma parseInt_hex:
  assumes "h \<noteq> []" and "\<forall>c \<in> set h. isRadixDigit 16 c"
  shows "parseInt h (Some 16) = toDouble (digitsValue 16 h)"
proof -
  from assms(1) obtain x xs where h: "h = x # xs" by (cases h) auto
  with assms(2) have x: "isRadixDigit 16 x" by simp
  have dw: "dropWhile isWhiteSpace h = h" using hex_digit_plain(1) [OF x] by (simp add: h)
  have np: "take 2 h \<noteq> ''0x''" "take 2 h \<noteq> ''0X''"
  proof -
    show "take 2 h \<noteq> ''0x''"
    proof (cases xs)
      case Nil
      then show ?thesis by (simp add: h)
    next
      case (Cons y ys)
      with assms(2) have "isRadixDigit 16 y" by (simp add: h)
      from hex_digit_plain(4) [OF this] show ?thesis by (simp add: h Cons)
    qed
    show "take 2 h \<noteq> ''0X''"
    proof (cases xs)
      case Nil
      then show ?thesis by (simp add: h)
    next
      case (Cons y ys)
      with assms(2) have "isRadixDigit 16 y" by (simp add: h)
      from hex_digit_plain(5) [OF this] show ?thesis by (simp add: h Cons)
    qed
  qed
  have tw: "takeWhile (isRadixDigit 16) h = h" using assms(2) by simp
  show ?thesis
    unfolding parseInt_def dw using hex_digit_plain(2,3) [OF x] np assms(1)
    by (simp add: Let_def tw) (simp add: h)
qed

lemma reverseHex_hex:
  assumes "hexValue \<noteq> []" and "\<forall>c \<in> set hexValue. isRadixDigit 16 c"
    and "length hexValue \<le> 13"
  shows "reverseHex hexValue = Fin (spec_raw_rev hexValue)" and "0 \<le> spec_raw_rev hexValue"
proof -
  let ?n = "4 * length hexValue"
  let ?raw = "digitsValue 16 hexValue"
  from digitsValue_hex_bounds [OF assms(2)]
  have raw: "0 \<le> ?raw" "?raw < 16 ^ length hexValue" by simp_all
  from raw(2) have r2: "?raw < 2 ^ ?n" by (simp add: pow16)
  have n: "0 < ?n" "?n \<le> 53" using assms(1,3) by simp_all
  have "(2 :: int) ^ ?n \<le> 2 ^ 53" using n(2) by (intro power_increasing) simp_all
  with r2 have "?raw < 2 ^ 53" by (rule less_le_trans)
  with raw(1) have ex: "toDouble ?raw = Fin ?raw" by (intro toDouble_exact) simp
  from reverse_segment [OF raw(1) r2 n]
  show "reverseHex hexValue = Fin (spec_raw_rev hexValue)" and "0 \<le> spec_raw_rev hexValue"
    by (simp_all add: reverseHex_def spec_raw_rev_def spec_raw_def parseInt_hex [OF assms(1,2)] ex
        mult.commute)
qed

lemma flagValue_spec:
  assumes "0 \<le> r" and "0 < bitSize" "bitSize \<le> 30" "bitPosition + bitSize \<le> 31"
  shows "flagValue (Fin r) bitPosition bitSize =
           Fin (digitsValue 2 (rev (padStart
                  (binDigits (drop_bit bitPosition (r AND push_bit bitPosition (2 ^ bitSize - 1))))
                  bitSize CHR ''0'')))"
proof -
  have p: "bitPosition mod 32 = bitPosition" using assms by simp
  have fit: "bitPosition mod 32 + bitSize \<le> 31" using assms by (simp add: p)
  let ?m = "(2 ^ bitSize - 1) * (2 :: int) ^ bitPosition"
  let ?w = "sar (band (toInt32 (Fin r)) (shl (shl 1 bitSize - 1) bitPosition)) bitPosition"
  have m: "0 \<le> ?m" "?m < 2 ^ 31"
    using field_mask [OF assms(2,3) fit] by (simp_all add: p)
  have "?w = (wrap32 (wrap32 r) AND ?m) div 2 ^ bitPosition"
    using flagValRev_eq [OF assms(2,3) fit, of "wrap32 r"] by (simp add: toInt32_def p)
  also have "\<dots> = (r AND ?m) div 2 ^ bitPosition"
    by (simp add: wrap32_and_mask [OF m])
  also have "\<dots> = drop_bit bitPosition (r AND push_bit bitPosition (2 ^ bitSize - 1))"
    by (simp add: drop_bit_eq_div push_bit_eq_mult)
  finally have w: "?w = drop_bit bitPosition (r AND push_bit bitPosition (2 ^ bitSize - 1))" .
  have "0 \<le> ?w" "?w < 2 ^ bitSize" by (rule flagValRev_range [OF assms(2,3) fit])+
  from reverse_segment(1) [OF this assms(2)] assms(3) show ?thesis
    by (simp add: flagValue_def Let_def w)
qed

lemma decoder_agrees_with_specification:
  assumes "lookup2 FLAGS_MAPPING devType version = Some flags"
    and "(flag, bitPosition, bitSize) \<in> set flags" and "bitPosition + bitSize \<le> 31"
    and "hexValue \<noteq> []" and "\<forall>c \<in> set hexValue. isRadixDigit 16 c"
    and "length hexValue \<le> 13"
  shows "decodedFlag hexValue version devType flag =
           Some (Fin (spec_decode_field hexValue bitPosition bitSize))"
proof -
  from tables_fields [OF registered_flags [OF assms(1)] assms(2)] assms(3)
  have fit: "0 < bitSize" "bitSize \<le> 30" by (auto simp: fieldFits_def)
  from reverseHex_hex [OF assms(4-6)]
  have r: "reverseHex hexValue = Fin (spec_raw_rev hexValue)" "0 \<le> spec_raw_rev hexValue" .
  show ?thesis
    by (simp add: decodedFlag_registered [OF assms(1,2)] r(1)
        flagValue_spec [OF r(2) fit assms(3)] spec_decode_field_def Let_def)
qed

lemma decoder_agrees_example:
  "decodedFlag ''6D28808'' (Fin 2) ''cam'' ''framerate'' =
     Some (Fin (spec_decode_field ''6D28808'' 8 7))"
proof -
  have l: "lookup2 FLAGS_MAPPING ''cam'' (Fin 2) = Some FLAGS_CAM_V2"
    by (simp add: lookup2_def FLAGS_MAPPING_def)
  have m: "(''framerate'', 8, 7) \<in> set FLAGS_CAM_V2" by (simp add: FLAGS_CAM_V2_def)
  have h: "\<forall>c \<in> set ''6D28808''. isRadixDigit 16 c"
    by (simp add: isRadixDigit_def digitValue_def)
  show ?thesis by (rule decoder_agrees_with_specification [OF l m _ _ h]) simp_all
qed

subsection \<open>The round trip on the camera schema\<close>

text \<open>
  The fields of the camera schema do not overlap and end below bit 28. For a payload of up to
  13 hexadecimal digits in which exactly the bits of one field are set, the decoder recovers
  the maximum of that field and 0 for every other field.
\<close>

lemma binDigits_ones: "0 < w \<Longrightarrow> binDigits (2 ^ w - 1) = replicate w CHR ''1''"
proof (induction w)
  case 0
  then show ?case by simp
next
  case (Suc w)
  show ?case
  proof (cases "w = 0")
    case True
    then show ?thesis by (simp add: binDigits.simps)
  next
    case False
    then have w: "0 < w" by simp
    have "(2 :: int) \<le> 2 ^ w" using w by (cases w) simp_all
    then have big: "\<not> (2 :: int) ^ Suc w - 1 < 2" by simp
    have d: "((2 :: int) ^ Suc w - 1) div 2 = 2 ^ w - 1" by simp
    have m: "((2 :: int) ^ Suc w - 1) mod 2 = 1" by (simp add: mod_2_eq_odd)
    have "binDigits (2 ^ Suc w - 1) = binDigits (2 ^ w - 1) @ [CHR ''1'']"
      using big by (subst binDigits.simps) (simp only: d m if_False, simp)
    then show ?thesis using Suc.IH [OF w] by (simp add: replicate_append_same)
  qed
qed

lemma digitsValue_ones: "digitsValue 2 (replicate w CHR ''1'') = 2 ^ w - 1"
proof (induction w)
  case 0
  then show ?case by simp
next
  case (Suc w)
  have "replicate (Suc w) CHR ''1'' = replicate w CHR ''1'' @ [CHR ''1'']"
    by (simp add: replicate_append_same)
  then show ?case using Suc by (simp add: digitValue_def del: replicate_Suc)
qed

lemma reverse_full_segment:
  "0 < w \<Longrightarrow> digitsValue 2 (rev (padStart (binDigits (2 ^ w - 1)) w CHR ''0'')) = 2 ^ w - 1"
  by (simp add: binDigits_ones padStart_def digitsValue_ones)

lemma segment_take_drop:
  "drop_bit off (R AND push_bit off (2 ^ w - 1)) = take_bit w (drop_bit off (R :: int))"
  by (rule bit_eqI) (auto simp: bit_simps simp flip: mask_eq_exp_minus_1)

lemma segment_of_own_field:
  "take_bit w (drop_bit off (push_bit off (2 ^ w - 1 :: int))) = 2 ^ w - 1"
  by (simp add: drop_bit_push_bit flip: mask_eq_exp_minus_1)

lemma segment_of_other_field:
  assumes "off' + w' \<le> off \<or> off + w \<le> off'"
  shows "take_bit w' (drop_bit off' (push_bit off (2 ^ w - 1 :: int))) = 0"
  using assms by (intro bit_eqI) (auto simp: bit_simps simp flip: mask_eq_exp_minus_1)

lemma cam_fields_disjoint:
  assumes "(f, off, w) \<in> set FLAGS_CAM_V2" "(f', off', w') \<in> set FLAGS_CAM_V2" "f' \<noteq> f"
  shows "off' + w' \<le> off \<or> off + w \<le> off'"
  using assms unfolding FLAGS_CAM_V2_def by (simp, elim disjE conjE) simp_all

lemma cam_fields_low:
  "(f, off, w) \<in> set FLAGS_CAM_V2 \<Longrightarrow> 0 < w \<and> off + w \<le> 31"
  by (auto simp: FLAGS_CAM_V2_def)

lemma registered_cam:
  "lookup2 FLAGS_MAPPING ''cam'' version = Some flags \<Longrightarrow> flags = FLAGS_CAM_V2"
  by (auto simp: lookup2_def FLAGS_MAPPING_def split: if_splits jsnum.splits)

lemma camera_round_trip:
  assumes "lookup2 FLAGS_MAPPING ''cam'' version = Some flags"
    and "(flag, bitPosition, bitSize) \<in> set flags"
    and "hexValue \<noteq> []" and "\<forall>c \<in> set hexValue. isRadixDigit 16 c"
    and "length hexValue \<le> 13"
    and "spec_raw_rev hexValue = push_bit bitPosition (2 ^ bitSize - 1)"
    and "(flag', bitPosition', bitSize') \<in> set flags"
  shows "decodedFlag hexValue version ''cam'' flag' =
           Some (Fin (if flag' = flag then 2 ^ bitSize - 1 else 0))"
proof -
  have flags: "flags = FLAGS_CAM_V2" by (rule registered_cam [OF assms(1)])
  from cam_fields_low [of flag' bitPosition' bitSize'] assms(7)
  have low: "0 < bitSize'" "bitPosition' + bitSize' \<le> 31" by (simp_all add: flags)
  have agree: "decodedFlag hexValue version ''cam'' flag' =
                 Some (Fin (spec_decode_field hexValue bitPosition' bitSize'))"
    by (rule decoder_agrees_with_specification [OF assms(1,7) low(2) assms(3-5)])
  have seg: "spec_decode_field hexValue bitPosition' bitSize' =
               digitsValue 2 (rev (padStart
                 (binDigits (take_bit bitSize' (drop_bit bitPosition'
                    (push_bit bitPosition (2 ^ bitSize - 1 :: int))))) bitSize' CHR ''0''))"
    by (simp only: spec_decode_field_def Let_def assms(6) segment_take_drop)
  show ?thesis
  proof (cases "flag' = flag")
    case True
    have "distinct (map fst flags)" by (rule registered_distinct [OF assms(1)])
    from eq_key_imp_eq_value [OF this assms(2)] assms(7) True
    have same: "bitPosition' = bitPosition" "bitSize' = bitSize" by auto
    from low(1) have w: "0 < bitSize" by (simp only: same)
    from seg have "spec_decode_field hexValue bitPosition' bitSize' =
        digitsValue 2 (rev (padStart (binDigits (2 ^ bitSize - 1)) bitSize CHR ''0''))"
      by (simp only: same segment_of_own_field)
    also have "\<dots> = 2 ^ bitSize - 1" by (rule reverse_full_segment [OF w])
    finally show ?thesis using agree True by simp
  next
    case False
    from cam_fields_disjoint [of flag bitPosition bitSize flag' bitPosition' bitSize'] assms(2,7) False
    have "bitPosition' + bitSize' \<le> bitPosition \<or> bitPosition + bitSize \<le> bitPosition'"
      by (simp add: flags)
    from segment_of_other_field [OF this] seg
    have "spec_decode_field hexValue bitPosition' bitSize' =
        digitsValue 2 (rev (padStart (binDigits 0) bitSize' CHR ''0''))"
      by simp
    also have "\<dots> = 0" by (rule reverse_zero_segment [OF low(1)])
    finally show ?thesis using agree False by simp
  qed
qed

lemma camera_round_trip_example:
  "decodedFlag ''00FE000'' (Fin 2) ''cam'' ''framerate'' = Some (Fin 127) \<and>
   decodedFlag ''00FE000'' (Fin 2) ''cam'' ''resolution_index'' = Some (Fin 0) \<and>
   decodedFlag ''00FE000'' (Fin 2) ''cam'' ''audio_index'' = Some (Fin 0)"
proof -
  have l: "lookup2 FLAGS_MAPPING ''cam'' (Fin 2) = Some FLAGS_CAM_V2"
    by (simp add: lookup2_def FLAGS_MAPPING_def)
  have m: "(''framerate'', 8, 7) \<in> set FLAGS_CAM_V2" "(''resolution_index'', 0, 7) \<in> set FLAGS_CAM_V2"
    "(''audio_index'', 15, 2) \<in> set FLAGS_CAM_V2"
    by (simp_all add: FLAGS_CAM_V2_def)
  have h: "\<forall>c \<in> set ''00FE000''. isRadixDigit 16 c"
    by (simp add: isRadixDigit_def digitValue_def)
  have s: "spec_raw_rev ''00FE000'' = push_bit 8 (2 ^ 7 - 1)" by code_simp
  have n: "''00FE000'' \<noteq> []" "length ''00FE000'' \<le> 13" by simp_all
  from camera_round_trip [OF l m(1) n(1) h n(2) s m(1)]
    camera_round_trip [OF l m(1) n(1) h n(2) s m(2)]
    camera_round_trip [OF l m(1) n(1) h n(2) s m(3)]
  show ?thesis by simp
qed

section \<open>The decoder on concrete payloads\<close>

lemma decode_6D28808:
  "decodeHexToFlags ''6D28808'' (Fin 2) ''cam'' =
     Inr [(''resolution_index'', Fin 54), (''tv_system'', Fin 1), (''framerate'', Fin 20),
          (''audio_index'', Fin 1), (''ai_pd'', Fin 0), (''ai_fd'', Fin 0), (''ai_vd'', Fin 0),
          (''ai_ad'', Fin 0), (''encoder_type_index'', Fin 0), (''is_schedule_record'', Fin 0),
          (''is_motion_record'', Fin 1), (''is_rf_record'', Fin 0),
          (''is_doorbell_record'', Fin 0), (''ai_other'', Fin 0)]"
  by code_simp

lemma spec_6D28808:
  "[spec_bit ''6D28808'' 17, spec_bit ''6D28808'' 18, spec_bit ''6D28808'' 19,
    spec_bit ''6D28808'' 20] = [0, 0, 0, 0]"
  "[spec_decode_field ''6D28808'' 17 1, spec_decode_field ''6D28808'' 18 1,
    spec_decode_field ''6D28808'' 19 1, spec_decode_field ''6D28808'' 20 1] = [0, 0, 0, 0]"
  "[no_reversal_field ''6D28808'' 17 1, no_reversal_field ''6D28808'' 18 1,
    no_reversal_field ''6D28808'' 19 1, no_reversal_field ''6D28808'' 20 1] = [1, 0, 0, 1]"
  "[payload_reversal_field ''6D28808'' 17 1, payload_reversal_field ''6D28808'' 18 1,
    payload_reversal_field ''6D28808'' 19 1, payload_reversal_field ''6D28808'' 20 1] = [0, 0, 0, 0]"
  "payload_reversal_field ''6D28808'' 15 2 = 2"
  by code_simp+

lemma flags_CAM_V2_ai:
  "map_of FLAGS_CAM_V2 ''ai_pd'' = Some (17, 1)"
  "map_of FLAGS_CAM_V2 ''ai_fd'' = Some (18, 1)"
  "map_of FLAGS_CAM_V2 ''ai_vd'' = Some (19, 1)"
  "map_of FLAGS_CAM_V2 ''ai_ad'' = Some (20, 1)"
  "map_of FLAGS_CAM_V2 ''resolution_index'' = Some (0, 7)"
  by (simp_all add: FLAGS_CAM_V2_def)

text \<open>
  Claim C2, as stated, fails on the pinned payload \<^verbatim>\<open>6D28808\<close> with the camera schema of
  version 2: the four flags are one bit wide, so for \<^verbatim>\<open>ai_fd\<close> and \<^verbatim>\<open>ai_vd\<close> the decoder
  returns the very value an extraction without any reversal gives, and for all four flags it
  returns the value that a reversal of the payload alone (without the per-field reversal) gives.
\<close>

theorem pinned_vector_coincidences:
  "decodedFlag ''6D28808'' (Fin 2) ''cam'' ''ai_fd'' = Some (Fin (no_reversal_field ''6D28808'' 18 1)) \<and>
   decodedFlag ''6D28808'' (Fin 2) ''cam'' ''ai_vd'' = Some (Fin (no_reversal_field ''6D28808'' 19 1)) \<and>
   decodedFlag ''6D28808'' (Fin 2) ''cam'' ''ai_pd'' = Some (Fin (payload_reversal_field ''6D28808'' 17 1)) \<and>
   decodedFlag ''6D28808'' (Fin 2) ''cam'' ''ai_fd'' = Some (Fin (payload_reversal_field ''6D28808'' 18 1)) \<and>
   decodedFlag ''6D28808'' (Fin 2) ''cam'' ''ai_vd'' = Some (Fin (payload_reversal_field ''6D28808'' 19 1)) \<and>
   decodedFlag ''6D28808'' (Fin 2) ''cam'' ''ai_ad'' = Some (Fin (payload_reversal_field ''6D28808'' 20 1))"
  using spec_6D28808 by (simp add: decodedFlag_def decode_6D28808)

text \<open>
  Claim C2, amended. For the payload \<^verbatim>\<open>6D28808\<close> and the camera schema of version 2, the
  decoder returns for each of \<^verbatim>\<open>ai_pd\<close>, \<^verbatim>\<open>ai_fd\<close>, \<^verbatim>\<open>ai_vd\<close>, \<^verbatim>\<open>ai_ad\<close> (offsets 17 to 20,
  one bit each) the bit that the formula of section 4.2 gives, which is 0 for all four, and
  which is also what the double reversal of the specification computes. An extraction with no
  reversal gives 1, 0, 0, 1 instead, so it differs at \<^verbatim>\<open>ai_pd\<close> and \<^verbatim>\<open>ai_ad\<close>. A reversal of the
  payload alone gives 0 for all four, as the decoder does, and is told apart only by a wider
  field: \<^verbatim>\<open>audio_index\<close> decodes to 1 where it would give 2.
\<close>

theorem pinned_vector:
  "map_of FLAGS_CAM_V2 ''ai_pd'' = Some (17, 1) \<and>
   map_of FLAGS_CAM_V2 ''ai_fd'' = Some (18, 1) \<and>
   map_of FLAGS_CAM_V2 ''ai_vd'' = Some (19, 1) \<and>
   map_of FLAGS_CAM_V2 ''ai_ad'' = Some (20, 1) \<and>
   decodedFlag ''6D28808'' (Fin 2) ''cam'' ''ai_pd'' = Some (Fin (spec_bit ''6D28808'' 17)) \<and>
   decodedFlag ''6D28808'' (Fin 2) ''cam'' ''ai_fd'' = Some (Fin (spec_bit ''6D28808'' 18)) \<and>
   decodedFlag ''6D28808'' (Fin 2) ''cam'' ''ai_vd'' = Some (Fin (spec_bit ''6D28808'' 19)) \<and>
   decodedFlag ''6D28808'' (Fin 2) ''cam'' ''ai_ad'' = Some (Fin (spec_bit ''6D28808'' 20)) \<and>
   [spec_bit ''6D28808'' 17, spec_bit ''6D28808'' 18, spec_bit ''6D28808'' 19,
    spec_bit ''6D28808'' 20] = [0, 0, 0, 0] \<and>
   [spec_decode_field ''6D28808'' 17 1, spec_decode_field ''6D28808'' 18 1,
    spec_decode_field ''6D28808'' 19 1, spec_decode_field ''6D28808'' 20 1] = [0, 0, 0, 0] \<and>
   [no_reversal_field ''6D28808'' 17 1, no_reversal_field ''6D28808'' 18 1,
    no_reversal_field ''6D28808'' 19 1, no_reversal_field ''6D28808'' 20 1] = [1, 0, 0, 1] \<and>
   [payload_reversal_field ''6D28808'' 17 1, payload_reversal_field ''6D28808'' 18 1,
    payload_reversal_field ''6D28808'' 19 1, payload_reversal_field ''6D28808'' 20 1] = [0, 0, 0, 0] \<and>
   decodedFlag ''6D28808'' (Fin 2) ''cam'' ''audio_index'' = Some (Fin 1) \<and>
   payload_reversal_field ''6D28808'' 15 2 = 2"
  using spec_6D28808 by (simp add: decodedFlag_def decode_6D28808 flags_CAM_V2_ai)

lemma decode_033C820000:
  "decodeHexToFlags ''033C820000'' (Fin 2) ''hub'' =
     Inr [(''resolution_index'', Fin 1), (''tv_system'', Fin 1), (''framerate'', Fin 30),
          (''audio_index'', Fin 1), (''ai_pd'', Fin 0), (''ai_fd'', Fin 0), (''ai_vd'', Fin 0),
          (''ai_ad'', Fin 0), (''ai_other'', Fin 1), (''encoder_type_index'', Fin 0),
          (''is_schedule_record'', Fin 0), (''is_motion_record'', Fin 0),
          (''is_rf_record'', Fin 0), (''is_doorbell_record'', Fin 0),
          (''picture_layout_index'', Fin 0), (''package_delivered'', Fin 0),
          (''package_takenaway'', Fin 0), (''package_event'', Fin 0), (''upload_flag'', Fin 1)]"
  by code_simp

lemma spec_033C820000:
  "map (\<lambda>(flag, off, w). (flag, spec_decode_field ''033C820000'' off w)) FLAGS_HUB_V2 =
     [(''resolution_index'', 1), (''tv_system'', 1), (''framerate'', 30),
      (''audio_index'', 1), (''ai_pd'', 0), (''ai_fd'', 0), (''ai_vd'', 0),
      (''ai_ad'', 0), (''ai_other'', 1), (''encoder_type_index'', 0),
      (''is_schedule_record'', 0), (''is_motion_record'', 0),
      (''is_rf_record'', 0), (''is_doorbell_record'', 0),
      (''picture_layout_index'', 0), (''package_delivered'', 0),
      (''package_takenaway'', 0), (''package_event'', 0), (''upload_flag'', 0)]"
  by code_simp

lemma decode_FFFFFFFFFFFFFF:
  "decodeHexToFlags ''FFFFFFFFFFFFFF'' (Fin 9) ''cam'' =
     Inr [(''resolution_index'', Fin 64), (''tv_system'', Fin 0), (''framerate'', Fin 0),
          (''audio_index'', Fin 0), (''ai_pd'', Fin 0), (''ai_fd'', Fin 0), (''ai_vd'', Fin 0),
          (''ai_ad'', Fin 0), (''encoder_type_index'', Fin 0), (''is_schedule_record'', Fin 0),
          (''is_motion_record'', Fin 0), (''is_rf_record'', Fin 0),
          (''is_doorbell_record'', Fin 0), (''ai_other'', Fin 0)]"
  by code_simp

lemma spec_FFFFFFFFFFFFFF:
  "map (\<lambda>(flag, off, w). (flag, spec_decode_field ''FFFFFFFFFFFFFF'' off w)) FLAGS_CAM_V2 =
     [(''resolution_index'', 127), (''tv_system'', 1), (''framerate'', 127),
      (''audio_index'', 3), (''ai_pd'', 1), (''ai_fd'', 1), (''ai_vd'', 1),
      (''ai_ad'', 1), (''encoder_type_index'', 3), (''is_schedule_record'', 1),
      (''is_motion_record'', 1), (''is_rf_record'', 1),
      (''is_doorbell_record'', 1), (''ai_other'', 1)]"
  by code_simp

text \<open>
  Claim C1 does not hold of the code (it holds where \<open>decoder_agrees_with_specification\<close>
  applies: up to 13 digits, fields ending at or below bit 31). The payload \<^verbatim>\<open>033C820000\<close> of the hub file name quoted in
  the source, decoded with the hub schema of version 2, gives \<^verbatim>\<open>upload_flag\<close> (offset 38, one
  bit) the value 1, where the double reversal of the specification gives 0: the shift count 38
  is taken modulo 32 and the reversed payload is cut to 32 bits, so bit 6 is read. And the
  14-digit payload \<^verbatim>\<open>FFFFFFFFFFFFFF\<close> (the length expected for camera version 9) is rounded to
  \<open>2 ^ 56\<close> when it is parsed, so \<^verbatim>\<open>resolution_index\<close> decodes to 64 where the specification
  gives 127.
\<close>

theorem decoder_differs_from_specification:
  "lookup2 FLAGS_MAPPING ''hub'' (Fin 2) = Some FLAGS_HUB_V2 \<and>
   map_of FLAGS_HUB_V2 ''upload_flag'' = Some (38, 1) \<and>
   decodedFlag ''033C820000'' (Fin 2) ''hub'' ''upload_flag'' = Some (Fin 1) \<and>
   spec_decode_field ''033C820000'' 38 1 = 0 \<and>
   lookup2 FLAGS_MAPPING ''cam'' (Fin 9) = Some FLAGS_CAM_V2 \<and>
   map_of FLAGS_CAM_V2 ''resolution_index'' = Some (0, 7) \<and>
   decodedFlag ''FFFFFFFFFFFFFF'' (Fin 9) ''cam'' ''resolution_index'' = Some (Fin 64) \<and>
   spec_decode_field ''FFFFFFFFFFFFFF'' 0 7 = 127"
  using spec_033C820000 spec_FFFFFFFFFFFFFF
  by (simp add: decodedFlag_def decode_033C820000 decode_FFFFFFFFFFFFFF lookup2_def
      FLAGS_MAPPING_def FLAGS_HUB_V2_def FLAGS_CAM_V2_def)

lemma decode_0000000010:
  "decodeHexToFlags ''0000000010'' (Fin 2) ''hub'' =
     Inr [(''resolution_index'', Fin 0), (''tv_system'', Fin 0), (''framerate'', Fin 0),
          (''audio_index'', Fin 0), (''ai_pd'', Fin 0), (''ai_fd'', Fin 0), (''ai_vd'', Fin 0),
          (''ai_ad'', Fin 0), (''ai_other'', Fin 0), (''encoder_type_index'', Fin 0),
          (''is_schedule_record'', Fin 0), (''is_motion_record'', Fin 0),
          (''is_rf_record'', Fin 0), (''is_doorbell_record'', Fin 0),
          (''picture_layout_index'', Fin 0), (''package_delivered'', Fin 0),
          (''package_takenaway'', Fin 0), (''package_event'', Fin 0), (''upload_flag'', Fin 0)]"
  by code_simp

lemma spec_0000000010:
  "map (\<lambda>(flag, off, w). (flag, spec_decode_field ''0000000010'' off w)) FLAGS_HUB_V2 =
     [(''resolution_index'', 0), (''tv_system'', 0), (''framerate'', 0),
      (''audio_index'', 0), (''ai_pd'', 0), (''ai_fd'', 0), (''ai_vd'', 0),
      (''ai_ad'', 0), (''ai_other'', 0), (''encoder_type_index'', 0),
      (''is_schedule_record'', 0), (''is_motion_record'', 0),
      (''is_rf_record'', 0), (''is_doorbell_record'', 0),
      (''picture_layout_index'', 0), (''package_delivered'', 1),
      (''package_takenaway'', 0), (''package_event'', 0), (''upload_flag'', 0)]"
  by code_simp

lemma decode_FE00000000:
  "decodeHexToFlags ''FE00000000'' (Fin 2) ''hub'' =
     Inr [(''resolution_index'', Fin 127), (''tv_system'', Fin 0), (''framerate'', Fin 0),
          (''audio_index'', Fin 0), (''ai_pd'', Fin 0), (''ai_fd'', Fin 0), (''ai_vd'', Fin 0),
          (''ai_ad'', Fin 0), (''ai_other'', Fin 0), (''encoder_type_index'', Fin 0),
          (''is_schedule_record'', Fin 0), (''is_motion_record'', Fin 0),
          (''is_rf_record'', Fin 0), (''is_doorbell_record'', Fin 0),
          (''picture_layout_index'', Fin 0), (''package_delivered'', Fin 1),
          (''package_takenaway'', Fin 1), (''package_event'', Fin 1), (''upload_flag'', Fin 1)]"
  by code_simp

lemma spec_FE00000000:
  "map (\<lambda>(flag, off, w). (flag, spec_decode_field ''FE00000000'' off w)) FLAGS_HUB_V2 =
     [(''resolution_index'', 127), (''tv_system'', 0), (''framerate'', 0),
      (''audio_index'', 0), (''ai_pd'', 0), (''ai_fd'', 0), (''ai_vd'', 0),
      (''ai_ad'', 0), (''ai_other'', 0), (''encoder_type_index'', 0),
      (''is_schedule_record'', 0), (''is_motion_record'', 0),
      (''is_rf_record'', 0), (''is_doorbell_record'', 0),
      (''picture_layout_index'', 0), (''package_delivered'', 0),
      (''package_takenaway'', 0), (''package_event'', 0), (''upload_flag'', 0)]"
  by code_simp

text \<open>
  Claim C8 does not hold of the code for the hub schemas (for the camera schema it does, see
  \<open>camera_round_trip\<close>). In the payload \<^verbatim>\<open>0000000010\<close> exactly
  the bit of \<^verbatim>\<open>package_delivered\<close> (offset 35) is set, as the specification's decoder shows, yet
  the code decodes every flag of the hub schema of version 2 to 0. In the payload
  \<^verbatim>\<open>FE00000000\<close> exactly the seven bits of \<^verbatim>\<open>resolution_index\<close> are set; the code recovers 127
  for it, and also 1 for each of the four flags at the offsets 35 to 38.
\<close>

theorem hub_round_trip_fails:
  "map (\<lambda>(flag, off, w). (flag, spec_decode_field ''0000000010'' off w)) FLAGS_HUB_V2 =
     map (\<lambda>(flag, off, w). (flag, if flag = ''package_delivered'' then 1 else 0)) FLAGS_HUB_V2 \<and>
   decodeHexToFlags ''0000000010'' (Fin 2) ''hub'' =
     Inr (map (\<lambda>(flag, off, w). (flag, Fin 0)) FLAGS_HUB_V2) \<and>
   map (\<lambda>(flag, off, w). (flag, spec_decode_field ''FE00000000'' off w)) FLAGS_HUB_V2 =
     map (\<lambda>(flag, off, w). (flag, if flag = ''resolution_index'' then 127 else 0)) FLAGS_HUB_V2 \<and>
   decodedFlag ''FE00000000'' (Fin 2) ''hub'' ''resolution_index'' = Some (Fin 127) \<and>
   decodedFlag ''FE00000000'' (Fin 2) ''hub'' ''package_delivered'' = Some (Fin 1) \<and>
   decodedFlag ''FE00000000'' (Fin 2) ''hub'' ''package_takenaway'' = Some (Fin 1) \<and>
   decodedFlag ''FE00000000'' (Fin 2) ''hub'' ''package_event'' = Some (Fin 1) \<and>
   decodedFlag ''FE00000000'' (Fin 2) ''hub'' ''upload_flag'' = Some (Fin 1)"
  by (simp add: decodedFlag_def decode_0000000010 decode_FE00000000 spec_0000000010
      spec_FE00000000) (simp add: FLAGS_HUB_V2_def)

lemma decode_F:
  "decodeHexToFlags ''F'' (Fin 2) ''cam'' =
     Inr [(''resolution_index'', Fin 120), (''tv_system'', Fin 0), (''framerate'', Fin 0),
          (''audio_index'', Fin 0), (''ai_pd'', Fin 0), (''ai_fd'', Fin 0), (''ai_vd'', Fin 0),
          (''ai_ad'', Fin 0), (''encoder_type_index'', Fin 0), (''is_schedule_record'', Fin 0),
          (''is_motion_record'', Fin 0), (''is_rf_record'', Fin 0),
          (''is_doorbell_record'', Fin 0), (''ai_other'', Fin 0)]"
  by code_simp

text \<open>
  Claim C9, as stated, fails in its last part: with the one-digit payload \<^verbatim>\<open>F\<close> the field
  \<^verbatim>\<open>resolution_index\<close> (offset 0, seven bits) reaches three bits past the payload, and it
  decodes to 120, binary 1111000: its high bits are set, and its three low bits are zero.
\<close>

theorem short_payload_high_bits_set:
  "map_of FLAGS_CAM_V2 ''resolution_index'' = Some (0, 7) \<and>
   decodedFlag ''F'' (Fin 2) ''cam'' ''resolution_index'' = Some (Fin 120) \<and>
   drop_bit 4 (120 :: int) = 7 \<and> take_bit 3 (120 :: int) = 0"
  by (simp add: decodedFlag_def decode_F flags_CAM_V2_ai drop_bit_eq_div take_bit_eq_mod)

end
